theory Spec2Isabelle
  imports Main
begin

section \<open>Python values and builtins used by the sensor hub\<close>

text \<open>
  The telemetry decoder (\<^verbatim>\<open>database_manager.py\<close>) works on Python \<^verbatim>\<open>str\<close> values and
  returns a \<^verbatim>\<open>Dict[str, Any]\<close> or \<^verbatim>\<open>None\<close>.  Strings are modelled as \<^typ>\<open>string\<close>; a
  character is a code point up to 255, and the model is exact for 7-bit ASCII text, which
  is what the device sends.  Floating point numbers are kept abstract: the type variable
  \<open>'f\<close> stands for Python's \<^verbatim>\<open>float\<close>, and the conversions into it are fields of the record
  \<open>python\<close> below, so every theorem holds for whatever \<^verbatim>\<open>float()\<close>, \<^verbatim>\<open>str()\<close> and
  \<^verbatim>\<open>json.loads\<close> compute.
\<close>

datatype 'f pyobj =
    PyNone
  | PyBool bool
  | PyInt int
  | PyFloat 'f
  | PyStr string
  | PyList "'f pyobj list"
  | PyDict "(string \<times> 'f pyobj) list"

datatype pyexn = ValueError | TypeError | OverflowError | OSError | SerialException

record 'f python =
  float_str :: "string \<Rightarrow> 'f option"
  float_int :: "int \<Rightarrow> 'f option"
  repr_obj :: "'f pyobj \<Rightarrow> string"
  json_loads :: "string \<Rightarrow> 'f pyobj option"

text \<open>
  \<open>float_str py s\<close> is \<^verbatim>\<open>float(s)\<close> for a string, \<open>None\<close> when it raises ValueError;
  \<open>float_int py n\<close> is \<^verbatim>\<open>float(n)\<close> for an integer, \<open>None\<close> when it raises OverflowError;
  \<open>repr_obj py v\<close> is \<^verbatim>\<open>str(v)\<close> for numbers, lists and dicts;
  \<open>json_loads py s\<close> is \<^verbatim>\<open>json.loads(s)\<close>, \<open>None\<close> when it raises.
\<close>

fun py_float :: "'f python \<Rightarrow> 'f pyobj \<Rightarrow> pyexn + 'f" where
  "py_float py (PyFloat x) = Inr x"
| "py_float py (PyInt n) =
     (case float_int py n of None \<Rightarrow> Inl OverflowError | Some x \<Rightarrow> Inr x)"
| "py_float py (PyBool b) =
     (case float_int py (if b then 1 else 0) of None \<Rightarrow> Inl OverflowError | Some x \<Rightarrow> Inr x)"
| "py_float py (PyStr s) =
     (case float_str py s of None \<Rightarrow> Inl ValueError | Some x \<Rightarrow> Inr x)"
| "py_float py PyNone = Inl TypeError"
| "py_float py (PyList xs) = Inl TypeError"
| "py_float py (PyDict kvs) = Inl TypeError"

fun py_str :: "'f python \<Rightarrow> 'f pyobj \<Rightarrow> string" where
  "py_str py (PyStr s) = s"
| "py_str py PyNone = ''None''"
| "py_str py (PyBool b) = (if b then ''True'' else ''False'')"
| "py_str py v = repr_obj py v"

subsection \<open>String operations\<close>

text \<open>The characters that \<^verbatim>\<open>str.strip()\<close> removes, among the code points up to 255.\<close>

definition is_space :: "char \<Rightarrow> bool" where
  "is_space c = (c \<in> set [CHR 0x09, CHR 0x0A, CHR 0x0B, CHR 0x0C, CHR 0x0D,
                             CHR 0x1C, CHR 0x1D, CHR 0x1E, CHR 0x1F, CHR '' '',
                             CHR 0x85, CHR 0xA0])"

definition strip :: "string \<Rightarrow> string" where
  "strip s = rev (dropWhile is_space (rev (dropWhile is_space s)))"

definition lower_char :: "char \<Rightarrow> char" where
  "lower_char c =
     (case map_of (zip ''ABCDEFGHIJKLMNOPQRSTUVWXYZ'' ''abcdefghijklmnopqrstuvwxyz'') c of
        None \<Rightarrow> c
      | Some d \<Rightarrow> d)"

definition lower :: "string \<Rightarrow> string" where
  "lower s = map lower_char s"

definition startswith_char :: "char \<Rightarrow> string \<Rightarrow> bool" where
  "startswith_char c s = (case s of [] \<Rightarrow> False | x # xs \<Rightarrow> x = c)"

definition endswith_char :: "char \<Rightarrow> string \<Rightarrow> bool" where
  "endswith_char c s = (s \<noteq> [] \<and> last s = c)"

text \<open>\<^verbatim>\<open>s.split(c)\<close> for a one-character separator: never empty, keeps empty pieces.\<close>

fun split_on :: "char \<Rightarrow> string \<Rightarrow> string list" where
  "split_on c [] = [[]]"
| "split_on c (x # xs) =
     (if x = c then [] # split_on c xs
      else (case split_on c xs of
              [] \<Rightarrow> [[x]]
            | p # ps \<Rightarrow> (x # p) # ps))"

text \<open>
  \<^verbatim>\<open>key, value = pair.split('=', 1)\<close>, used only where \<^verbatim>\<open>'=' in pair\<close>: the text before
  the first \<^verbatim>\<open>=\<close> and the text after it.
\<close>

definition split_first :: "char \<Rightarrow> string \<Rightarrow> string \<times> string" where
  "split_first c s = (takeWhile (\<lambda>x. x \<noteq> c) s, drop 1 (dropWhile (\<lambda>x. x \<noteq> c) s))"

subsection \<open>The regular expression of the generic format\<close>

definition is_digit :: "char \<Rightarrow> bool" where
  "is_digit c = (c \<in> set ''0123456789'')"

text \<open>An optional single character \<^verbatim>\<open>c?\<close> at the head of the text (greedy).\<close>

definition opt_char :: "char \<Rightarrow> string \<Rightarrow> string \<times> string" where
  "opt_char c s = (case s of [] \<Rightarrow> ([], s) | x # r \<Rightarrow> if x = c then ([x], r) else ([], s))"

text \<open>
  One attempt of \<^verbatim>\<open>-?\d+\.?\d*\<close> at the head of the text: the matched text and the rest.
  The optional sign is taken when present; without a digit after it there is no match at
  this position, since the pattern cannot start on \<^verbatim>\<open>-\<close> otherwise.  All later parts are
  optional and greedy, so nothing is ever given back.
\<close>

definition match_number :: "string \<Rightarrow> (string \<times> string) option" where
  "match_number s =
     (let (sign, s1) = opt_char (CHR ''-'') s;
          ds = takeWhile is_digit s1;
          s2 = dropWhile is_digit s1
      in if ds = [] then None
         else let (dot, s3) = opt_char (CHR ''.'') s2;
                  fs = takeWhile is_digit s3;
                  s4 = dropWhile is_digit s3
              in Some (sign @ ds @ dot @ fs, s4))"

text \<open>
  \<^verbatim>\<open>re.findall(r'-?\d+\.?\d*', s)\<close>: scan from the left; where the pattern matches, keep
  the match and go on after it; elsewhere move one character on.  A match is never empty.
\<close>

function findall :: "string \<Rightarrow> string list" where
  "findall [] = []"
| "findall (c # cs) =
     (case match_number (c # cs) of
        None \<Rightarrow> findall cs
      | Some (m, rest) \<Rightarrow> m # findall rest)"
  by pat_completeness auto
termination
proof (relation "measure length")
  show "wf (measure length)" by simp
next
  fix c :: char and cs :: string
  show "(cs, c # cs) \<in> measure length" by simp
next
  fix c :: char and cs x2 m rest
  assume a: "match_number (c # cs) = Some x2" "(m, rest) = x2"
  have oc: "\<And>d s a r. opt_char d s = (a, r) \<Longrightarrow> length r \<le> length s"
    by (auto simp: opt_char_def split: list.splits if_splits)
  obtain sign s1 where o1: "opt_char (CHR ''-'') (c # cs) = (sign, s1)"
    by (cases "opt_char (CHR ''-'') (c # cs)")
  obtain dot s3 where o2: "opt_char (CHR ''.'') (dropWhile is_digit s1) = (dot, s3)"
    by (cases "opt_char (CHR ''.'') (dropWhile is_digit s1)")
  from a o1 o2 have ne: "takeWhile is_digit s1 \<noteq> []" and r: "rest = dropWhile is_digit s3"
    by (auto simp: match_number_def Let_def split: if_splits)
  from ne have "length (dropWhile is_digit s1) < length s1"
    by (cases s1) (auto simp: le_imp_less_Suc length_dropWhile_le split: if_splits)
  moreover have "length s3 \<le> length (dropWhile is_digit s1)" using o2 by (rule oc)
  moreover have "length s1 \<le> length (c # cs)" using o1 by (rule oc)
  moreover have "length rest \<le> length s3" unfolding r by (rule length_dropWhile_le)
  ultimately have "length rest < length (c # cs)" by linarith
  then show "(rest, c # cs) \<in> measure length" by simp
qed

section \<open>The telemetry decoder (\<^verbatim>\<open>DatabaseManager\<close>)\<close>

text \<open>
  A parsed reading is the Python dictionary the parser returns: a finite map from column
  name to value.  A column is absent when the dictionary has no such key or holds
  \<^verbatim>\<open>None\<close> under it.
\<close>

type_synonym 'f reading = "string \<rightharpoonup> 'f pyobj"

text \<open>
  \<^verbatim>\<open>_safe_float(value)\<close>: \<^verbatim>\<open>None\<close> stays \<^verbatim>\<open>None\<close>; ValueError and TypeError of
  \<^verbatim>\<open>float(value)\<close> give \<^verbatim>\<open>None\<close>; any other exception leaves the function.
\<close>

definition safe_float :: "'f python \<Rightarrow> 'f pyobj \<Rightarrow> pyexn + 'f pyobj" where
  "safe_float py v =
     (if v = PyNone then Inr PyNone
      else (case py_float py v of
              Inr x \<Rightarrow> Inr (PyFloat x)
            | Inl e \<Rightarrow> if e = ValueError \<or> e = TypeError then Inr PyNone else Inl e))"

text \<open>
  On a \<^verbatim>\<open>str\<close> argument \<^verbatim>\<open>float\<close> raises nothing but ValueError, so \<^verbatim>\<open>_safe_float\<close>
  always returns there; the three text formats call it on strings only.
\<close>

definition safe_float_str :: "'f python \<Rightarrow> string \<Rightarrow> 'f pyobj" where
  "safe_float_str py s = (case float_str py s of None \<Rightarrow> PyNone | Some x \<Rightarrow> PyFloat x)"

definition sensor_columns :: "string list" where
  "sensor_columns = [''ambient_temperature'', ''humidity'', ''soil_moisture'',
                     ''soil_temperature'', ''wind_speed'', ''longitude'', ''latitude'']"

subsection \<open>\<^verbatim>\<open>_parse_json_format\<close>\<close>

text \<open>\<^verbatim>\<open>data.get(key, default)\<close> on a decoded JSON object (the first entry of a key counts).\<close>

definition dict_get :: "(string \<times> 'f pyobj) list \<Rightarrow> string \<Rightarrow> 'f pyobj \<Rightarrow> 'f pyobj" where
  "dict_get kvs k d = (case map_of kvs k of None \<Rightarrow> d | Some v \<Rightarrow> v)"

text \<open>
  Any exception inside the \<^verbatim>\<open>try\<close> gives \<^verbatim>\<open>None\<close>: a decoding error of \<^verbatim>\<open>json.loads\<close>, a
  decoded value without \<^verbatim>\<open>.get\<close>, or an exception that \<^verbatim>\<open>_safe_float\<close> lets through.
\<close>

definition parse_json_format :: "'f python \<Rightarrow> string \<Rightarrow> 'f reading option" where
  "parse_json_format py data_string =
     (case json_loads py data_string of
        None \<Rightarrow> None
      | Some (PyDict data) \<Rightarrow>
          (let device_id = py_str py (dict_get data ''device_id'' (PyStr ''unknown''));
               fs = map (\<lambda>k. safe_float py (dict_get data k PyNone))
                      [''ambient_temp'', ''humidity'', ''soil_moisture'', ''soil_temp'',
                       ''wind_speed'', ''longitude'', ''latitude'']
           in if list_ex isl fs then None
              else Some [''device_id'' \<mapsto> PyStr device_id,
                         ''ambient_temperature'' \<mapsto> projr (fs ! 0),
                         ''humidity'' \<mapsto> projr (fs ! 1),
                         ''soil_moisture'' \<mapsto> projr (fs ! 2),
                         ''soil_temperature'' \<mapsto> projr (fs ! 3),
                         ''wind_speed'' \<mapsto> projr (fs ! 4),
                         ''longitude'' \<mapsto> projr (fs ! 5),
                         ''latitude'' \<mapsto> projr (fs ! 6),
                         ''transmitted'' \<mapsto> PyBool False])
      | Some _ \<Rightarrow> None)"

subsection \<open>\<^verbatim>\<open>_parse_csv_format\<close>\<close>

definition parse_csv_format :: "'f python \<Rightarrow> string \<Rightarrow> 'f reading option" where
  "parse_csv_format py data_string =
     (let parts = split_on (CHR '','') data_string
      in if length parts \<ge> 5 then
           Some [''device_id'' \<mapsto> PyStr (strip (parts ! 0)),
                 ''ambient_temperature'' \<mapsto> safe_float_str py (parts ! 1),
                 ''humidity'' \<mapsto> safe_float_str py (parts ! 2),
                 ''soil_moisture'' \<mapsto> safe_float_str py (parts ! 3),
                 ''soil_temperature'' \<mapsto> safe_float_str py (parts ! 4),
                 ''wind_speed'' \<mapsto>
                     (if length parts > 5 then safe_float_str py (parts ! 5) else PyNone),
                 ''longitude'' \<mapsto>
                     (if length parts > 6 then safe_float_str py (parts ! 6) else PyNone),
                 ''latitude'' \<mapsto>
                     (if length parts > 7 then safe_float_str py (parts ! 7) else PyNone),
                 ''transmitted'' \<mapsto> PyBool False]
         else None)"

subsection \<open>\<^verbatim>\<open>_parse_key_value_format\<close>\<close>

text \<open>The body of the loop over the comma-separated pairs: one pair updates the dictionary.\<close>

definition kv_step :: "'f python \<Rightarrow> 'f reading \<Rightarrow> string \<Rightarrow> 'f reading" where
  "kv_step py data pair =
     (if CHR ''='' \<in> set pair then
        (let (k, v) = split_first (CHR ''='') pair;
             key = lower (strip k);
             val = strip v
         in if key = ''device_id'' then data(''device_id'' \<mapsto> PyStr val)
            else if key = ''ambient_temp'' then
              data(''ambient_temperature'' \<mapsto> safe_float_str py val)
            else if key = ''humidity'' then data(''humidity'' \<mapsto> safe_float_str py val)
            else if key = ''soil_moisture'' then
              data(''soil_moisture'' \<mapsto> safe_float_str py val)
            else if key = ''soil_temp'' then
              data(''soil_temperature'' \<mapsto> safe_float_str py val)
            else if key = ''wind_speed'' then data(''wind_speed'' \<mapsto> safe_float_str py val)
            else if key = ''longitude'' then data(''longitude'' \<mapsto> safe_float_str py val)
            else if key = ''latitude'' then data(''latitude'' \<mapsto> safe_float_str py val)
            else data)
      else data)"

definition kv_loop :: "'f python \<Rightarrow> string list \<Rightarrow> 'f reading" where
  "kv_loop py pairs = foldl (kv_step py) Map.empty pairs"

definition parse_key_value_format :: "'f python \<Rightarrow> string \<Rightarrow> 'f reading option" where
  "parse_key_value_format py data_string =
     (let data = kv_loop py (split_on (CHR '','') data_string)
      in if data ''device_id'' \<noteq> None \<and> list_ex (\<lambda>key. data key \<noteq> None) sensor_columns
         then Some (data(''transmitted'' \<mapsto> PyBool False))
         else None)"

subsection \<open>\<^verbatim>\<open>_parse_generic_format\<close>\<close>

definition parse_generic_format :: "'f python \<Rightarrow> string \<Rightarrow> 'f reading option" where
  "parse_generic_format py data_string =
     (let numbers = findall data_string
      in if length numbers \<ge> 4 then
           Some [''device_id'' \<mapsto> PyStr ''unknown'',
                 ''ambient_temperature'' \<mapsto> safe_float_str py (numbers ! 0),
                 ''humidity'' \<mapsto> safe_float_str py (numbers ! 1),
                 ''soil_moisture'' \<mapsto> safe_float_str py (numbers ! 2),
                 ''soil_temperature'' \<mapsto> safe_float_str py (numbers ! 3),
                 ''wind_speed'' \<mapsto>
                     (if length numbers > 4 then safe_float_str py (numbers ! 4) else PyNone),
                 ''longitude'' \<mapsto>
                     (if length numbers > 5 then safe_float_str py (numbers ! 5) else PyNone),
                 ''latitude'' \<mapsto>
                     (if length numbers > 6 then safe_float_str py (numbers ! 6) else PyNone),
                 ''transmitted'' \<mapsto> PyBool False]
         else None)"

subsection \<open>\<^verbatim>\<open>_parse_sensor_data\<close>\<close>

definition parse_sensor_data :: "'f python \<Rightarrow> string \<Rightarrow> 'f reading option" where
  "parse_sensor_data py raw =
     (let data_string = strip raw
      in if startswith_char (CHR ''{'') data_string \<and> endswith_char (CHR ''}'') data_string
         then parse_json_format py data_string
         else if CHR ''='' \<in> set data_string then parse_key_value_format py data_string
         else if CHR '','' \<in> set data_string then parse_csv_format py data_string
         else parse_generic_format py data_string)"

section \<open>The serial session (\<^verbatim>\<open>SerialManager\<close>)\<close>

text \<open>
  The operating system and the pyserial library are an oracle: \<open>serial_Serial drv port baud\<close>
  is the outcome of the constructor \<^verbatim>\<open>serial.Serial(port, baud, ...)\<close>, an open handle or
  the exception raised; \<open>serial_close drv h\<close> is the exception raised by \<^verbatim>\<open>h.close()\<close>, if
  any.  \<^verbatim>\<open>SerialException\<close> is a subclass of \<^verbatim>\<open>OSError\<close>.
\<close>

type_synonym handle = nat

record driver =
  sys_platform :: string
  glob_glob :: "string \<Rightarrow> string list"
  serial_Serial :: "string \<Rightarrow> int \<Rightarrow> pyexn + handle"
  serial_close :: "handle \<Rightarrow> pyexn option"

definition MAX_COM_PORTS :: nat where
  "MAX_COM_PORTS = 256"

definition OS_WINDOWS :: int where
  "OS_WINDOWS = 1"

definition OS_LINUX :: int where
  "OS_LINUX = 2"

text \<open>The baud rate of \<^verbatim>\<open>serial.Serial(port_name)\<close> when none is given.\<close>

definition DEFAULT_BAUD :: int where
  "DEFAULT_BAUD = 9600"

definition startswith :: "string \<Rightarrow> string \<Rightarrow> bool" where
  "startswith pre s = (take (length pre) s = pre)"

fun str_nat :: "nat \<Rightarrow> string" where
  "str_nat n =
     (if n < 10 then [''0123456789'' ! n]
      else str_nat (n div 10) @ [''0123456789'' ! (n mod 10)])"

text \<open>An \<^verbatim>\<open>except (OSError, serial.SerialException)\<close> clause catches exactly these.\<close>

definition is_os_error :: "pyexn \<Rightarrow> bool" where
  "is_os_error e = (e = OSError \<or> e = SerialException)"

subsection \<open>\<^verbatim>\<open>scan_available_ports\<close>\<close>

definition port_list :: "driver \<Rightarrow> pyexn + string list" where
  "port_list drv =
     (if startswith ''win'' (sys_platform drv) then
        Inr (map (\<lambda>port_number. ''COM'' @ str_nat (port_number + 1)) [0..<MAX_COM_PORTS])
      else if startswith ''linux'' (sys_platform drv) \<or> startswith ''cygwin'' (sys_platform drv)
      then Inr (glob_glob drv ''/dev/tty[A-Za-z]*'')
      else if startswith ''darwin'' (sys_platform drv) then Inr (glob_glob drv ''/dev/tty.*'')
      else Inl OSError)"

text \<open>
  The probing loop with its accumulator \<^verbatim>\<open>available_ports\<close>.  An exception that the
  \<^verbatim>\<open>except\<close> clause does not catch ends the loop and leaves the function.
\<close>

fun probe_loop :: "driver \<Rightarrow> string list \<Rightarrow> string list \<Rightarrow> pyexn + string list" where
  "probe_loop drv available_ports [] = Inr available_ports"
| "probe_loop drv available_ports (port_name # rest) =
     (case serial_Serial drv port_name DEFAULT_BAUD of
        Inl e \<Rightarrow> if is_os_error e then probe_loop drv available_ports rest else Inl e
      | Inr test_connection \<Rightarrow>
          (case serial_close drv test_connection of
             Some e \<Rightarrow> if is_os_error e then probe_loop drv available_ports rest else Inl e
           | None \<Rightarrow> probe_loop drv (available_ports @ [port_name]) rest))"

definition scan_available_ports :: "driver \<Rightarrow> pyexn + string list" where
  "scan_available_ports drv =
     (case port_list drv of
        Inl e \<Rightarrow> Inl e
      | Inr ports \<Rightarrow> probe_loop drv [] ports)"

subsection \<open>\<^verbatim>\<open>connect\<close> and \<^verbatim>\<open>disconnect\<close>\<close>

datatype thread = Monitor_Thread

record session =
  serial_connection :: "handle option"
  is_connected :: bool
  should_monitor_data :: bool
  data_monitoring_thread :: "thread option"

definition init_session :: session where
  "init_session = \<lparr>serial_connection = None, is_connected = False,
                    should_monitor_data = False, data_monitoring_thread = None\<rparr>"

definition start_data_monitoring :: "session \<Rightarrow> session" where
  "start_data_monitoring s =
     s\<lparr>should_monitor_data := True, data_monitoring_thread := Some Monitor_Thread\<rparr>"

text \<open>
  A call returns a value or raises, and leaves a session state either way: the result is
  the pair of the outcome (\<open>Inl\<close> the exception that reaches the caller) and the state.
\<close>

text \<open>
  The body of the \<^verbatim>\<open>try\<close> of \<^verbatim>\<open>connect\<close> once the path is chosen, with its \<^verbatim>\<open>except\<close> clause:
  only \<^verbatim>\<open>SerialException\<close> is caught.  The handle is stored only when the constructor
  returns.
\<close>

definition open_connection ::
  "driver \<Rightarrow> session \<Rightarrow> string \<Rightarrow> int \<Rightarrow> (pyexn + bool) \<times> session" where
  "open_connection drv s path baud_rate =
     (case serial_Serial drv path baud_rate of
        Inr h \<Rightarrow>
          (Inr True,
           start_data_monitoring (s\<lparr>serial_connection := Some h, is_connected := True\<rparr>))
      | Inl e \<Rightarrow>
          if e = SerialException then (Inr False, s\<lparr>is_connected := False\<rparr>)
          else (Inl e, s))"

definition connect ::
  "driver \<Rightarrow> session \<Rightarrow> string \<Rightarrow> int \<Rightarrow> int \<Rightarrow> (pyexn + bool) \<times> session" where
  "connect drv s port baud_rate os_type =
     (if os_type = OS_LINUX then open_connection drv s (''/dev/tty'' @ port) baud_rate
      else if os_type = OS_WINDOWS then open_connection drv s port baud_rate
      else (Inr False, s))"

definition disconnect :: "driver \<Rightarrow> session \<Rightarrow> pyexn option \<times> session" where
  "disconnect drv s0 =
     (let s = s0\<lparr>should_monitor_data := False\<rparr>
      in case serial_connection s of
           None \<Rightarrow> (None, s\<lparr>is_connected := False\<rparr>)
         | Some h \<Rightarrow>
             (case serial_close drv h of
                None \<Rightarrow> (None, s\<lparr>serial_connection := None, is_connected := False\<rparr>)
              | Some e \<Rightarrow>
                  if e = SerialException
                  then (None, s\<lparr>serial_connection := None, is_connected := False\<rparr>)
                  else (Some e, s\<lparr>serial_connection := None\<rparr>)))"

text \<open>The state \<open>Idle\<close> of the specification: no handle, not connected, monitoring off.\<close>

definition idle :: "session \<Rightarrow> bool" where
  "idle s = (serial_connection s = None \<and> \<not> is_connected s \<and> \<not> should_monitor_data s)"

section \<open>Notions of the specification\<close>

text \<open>The four line formats and the rule that selects one for a trimmed line.\<close>

datatype line_format = Structured_Object | Key_Value | Delimited | Generic_Numeric

definition brace_delimited :: "string \<Rightarrow> bool" where
  "brace_delimited t = (startswith_char (CHR ''{'') t \<and> endswith_char (CHR ''}'') t)"

definition classify :: "string \<Rightarrow> line_format" where
  "classify t =
     (if brace_delimited t then Structured_Object
      else if CHR ''='' \<in> set t then Key_Value
      else if CHR '','' \<in> set t then Delimited
      else Generic_Numeric)"

fun parse_as :: "line_format \<Rightarrow> 'f python \<Rightarrow> string \<Rightarrow> 'f reading option" where
  "parse_as Structured_Object = parse_json_format"
| "parse_as Key_Value = parse_key_value_format"
| "parse_as Delimited = parse_csv_format"
| "parse_as Generic_Numeric = parse_generic_format"

text \<open>A field of a reading is present when the dictionary holds a value other than \<^verbatim>\<open>None\<close>.\<close>

definition field_present :: "'f reading \<Rightarrow> string \<Rightarrow> bool" where
  "field_present r c = (case r c of None \<Rightarrow> False | Some v \<Rightarrow> v \<noteq> PyNone)"

text \<open>
  The pairs of a key=value line: a comma-separated segment with a \<^verbatim>\<open>=\<close> has a key (the
  text before the first \<^verbatim>\<open>=\<close>, trimmed, in lower case) and a value (the text after it,
  trimmed).
\<close>

definition has_eq :: "string \<Rightarrow> bool" where
  "has_eq pair = (CHR ''='' \<in> set pair)"

definition key_of :: "string \<Rightarrow> string" where
  "key_of pair = lower (strip (fst (split_first (CHR ''='') pair)))"

definition value_of :: "string \<Rightarrow> string" where
  "value_of pair = strip (snd (split_first (CHR ''='') pair))"

definition sensor_keys :: "string list" where
  "sensor_keys = [''ambient_temp'', ''humidity'', ''soil_moisture'', ''soil_temp'',
                  ''wind_speed'', ''longitude'', ''latitude'']"

text \<open>The recognized keys and the column each one fills.\<close>

definition column_of :: "string \<Rightarrow> string option" where
  "column_of = map_of ((''device_id'', ''device_id'') # zip sensor_keys sensor_columns)"

text \<open>The value a recognized key stores: the text itself for the device, a float otherwise.\<close>

definition stored_value :: "'f python \<Rightarrow> string \<Rightarrow> string \<Rightarrow> 'f pyobj" where
  "stored_value py key val = (if key = ''device_id'' then PyStr val else safe_float_str py val)"

text \<open>
  Two segments that differ at most in the case of the letters of the key: the text after
  the first \<^verbatim>\<open>=\<close> is the same, and a segment without \<^verbatim>\<open>=\<close> is unchanged.
\<close>

definition key_case_variant :: "string \<Rightarrow> string \<Rightarrow> bool" where
  "key_case_variant p q =
     (if has_eq p
      then has_eq q \<and>
           lower (fst (split_first (CHR ''='') p)) = lower (fst (split_first (CHR ''='') q)) \<and>
           snd (split_first (CHR ''='') p) = snd (split_first (CHR ''='') q)
      else q = p)"

text \<open>
  The device identifier a line of one of the three text formats states itself: the value
  of its last \<^verbatim>\<open>device_id\<close> pair (key=value), its first position (delimited), none (generic).
\<close>

definition supplied_device_id :: "string \<Rightarrow> string option" where
  "supplied_device_id t =
     (if CHR ''='' \<in> set t then
        (case filter (\<lambda>p. has_eq p \<and> key_of p = ''device_id'') (split_on (CHR '','') t) of
           [] \<Rightarrow> None
         | p # ps \<Rightarrow> Some (value_of (last (p # ps))))
      else if CHR '','' \<in> set t then Some (strip (hd (split_on (CHR '','') t)))
      else None)"

text \<open>
  The language of the pattern \<^verbatim>\<open>-?\d+\.?\d*\<close>: an optional minus sign, one or more
  digits, an optional point, any number of digits.
\<close>

definition number_shaped :: "string \<Rightarrow> bool" where
  "number_shaped s =
     (\<exists>sign ds dot fs. s = sign @ ds @ dot @ fs \<and> (sign = [] \<or> sign = ''-'') \<and>
        ds \<noteq> [] \<and> list_all is_digit ds \<and> (dot = [] \<or> dot = ''.'') \<and> list_all is_digit fs)"

text \<open>The text made of the gaps and the numbers between them, in order.\<close>

fun interleave :: "string list \<Rightarrow> string list \<Rightarrow> string" where
  "interleave (g # gs) (n # ns) = g @ n @ interleave gs ns"
| "interleave gs [] = concat gs"
| "interleave [] ns = concat ns"

text \<open>
  Leftmost-longest matching, in terms of the language alone: a number prefix of a text is
  a prefix that has the shape of the pattern; the match at the head of a text is its
  longest number prefix.
\<close>

definition number_prefix :: "string \<Rightarrow> string \<Rightarrow> bool" where
  "number_prefix t m = (number_shaped m \<and> take (length m) t = m)"

definition longest_number_prefix :: "string \<Rightarrow> string \<Rightarrow> bool" where
  "longest_number_prefix t m =
     (number_prefix t m \<and> (\<forall>m'. number_prefix t m' \<longrightarrow> length m' \<le> length m))"

text \<open>The positions of a delimited line put together again, with the separator between.\<close>

fun join :: "char \<Rightarrow> string list \<Rightarrow> string" where
  "join c [] = []"
| "join c [p] = p"
| "join c (p # q # ps) = p @ c # join c (q # ps)"

text \<open>
  The probe of a candidate port is to open it and close it again.  It succeeds when both
  calls return; it fails with an I/O error when the call that raises raises \<^verbatim>\<open>OSError\<close> or
  \<^verbatim>\<open>SerialException\<close>.
\<close>

definition probe_ok :: "driver \<Rightarrow> string \<Rightarrow> bool" where
  "probe_ok drv port_name =
     (case serial_Serial drv port_name DEFAULT_BAUD of
        Inl e \<Rightarrow> False
      | Inr h \<Rightarrow> serial_close drv h = None)"

definition probe_opens :: "driver \<Rightarrow> string \<Rightarrow> bool" where
  "probe_opens drv port_name =
     (case serial_Serial drv port_name DEFAULT_BAUD of Inl e \<Rightarrow> False | Inr h \<Rightarrow> True)"

definition probe_io_error :: "driver \<Rightarrow> string \<Rightarrow> bool" where
  "probe_io_error drv port_name =
     (case serial_Serial drv port_name DEFAULT_BAUD of
        Inl e \<Rightarrow> is_os_error e
      | Inr h \<Rightarrow> (case serial_close drv h of None \<Rightarrow> False | Some e \<Rightarrow> is_os_error e))"

section \<open>A sample interpretation of the builtins\<close>

text \<open>
  To run the decoder on concrete lines the builtins need an interpretation.  In this one a
  float is written as the decimal literal that denotes it: \<open>float_str\<close> accepts the plain
  signed decimals (trimmed), \<open>float_int\<close> rejects everything, and \<open>json_loads\<close> decodes the
  empty object \<^verbatim>\<open>{}\<close> and nothing else.
\<close>

definition sample_float :: "string \<Rightarrow> string option" where
  "sample_float s =
     (case match_number (strip s) of
        None \<Rightarrow> None
      | Some (m, rest) \<Rightarrow> if rest = [] then Some m else None)"

definition sample_python :: "string python" where
  "sample_python =
     \<lparr>float_str = sample_float,
      float_int = (\<lambda>n. None),
      repr_obj = (\<lambda>v. ''?''),
      json_loads = (\<lambda>s. if s = ''{}'' then Some (PyDict []) else None)\<rparr>"

text \<open>
  A sample machine: Linux with three terminal devices, of which \<^verbatim>\<open>/dev/ttyUSB0\<close> opens,
  \<^verbatim>\<open>/dev/ttyS0\<close> is refused by the system and \<^verbatim>\<open>/dev/ttyS1\<close> by the library.  As in
  pyserial, a negative baud rate is rejected with \<^verbatim>\<open>ValueError\<close> before anything is opened,
  and a baud rate that does not fit a C integer raises \<^verbatim>\<open>OverflowError\<close> when the opened
  port is configured.
\<close>

definition sample_driver :: driver where
  "sample_driver =
     \<lparr>sys_platform = ''linux'',
      glob_glob = (\<lambda>pat. [''/dev/ttyS0'', ''/dev/ttyUSB0'', ''/dev/ttyS1'']),
      serial_Serial = (\<lambda>port baud.
         if baud < 0 then Inl ValueError
         else if port = ''/dev/ttyUSB0'' then
           (if baud \<ge> 2147483648 then Inl OverflowError else Inr 3)
         else if port = ''/dev/ttyS0'' then Inl OSError
         else Inl SerialException),
      serial_close = (\<lambda>h. None)\<rparr>"

section \<open>Properties of the string operations\<close>

lemmas str_defs = strip_def is_space_def lower_def lower_char_def startswith_char_def
  endswith_char_def split_first_def is_digit_def opt_char_def match_number_def

lemma opt_char_append: "opt_char c s = (a, r) \<Longrightarrow> s = a @ r"
  by (auto simp: opt_char_def split: list.splits if_splits)

lemma opt_char_cases: "opt_char c s = (a, r) \<Longrightarrow> a = [] \<or> a = [c]"
  by (auto simp: opt_char_def split: list.splits if_splits)

lemma match_number_parts:
  assumes "match_number s = Some (m, rest)"
  shows "\<exists>sign ds dot fs. s = sign @ ds @ dot @ fs @ rest \<and> m = sign @ ds @ dot @ fs \<and>
           (sign = [] \<or> sign = ''-'') \<and> ds \<noteq> [] \<and> list_all is_digit ds \<and>
           (dot = [] \<or> dot = ''.'') \<and> list_all is_digit fs"
proof -
  obtain sign s1 where o1: "opt_char (CHR ''-'') s = (sign, s1)"
    by (cases "opt_char (CHR ''-'') s")
  obtain dot s3 where o2: "opt_char (CHR ''.'') (dropWhile is_digit s1) = (dot, s3)"
    by (cases "opt_char (CHR ''.'') (dropWhile is_digit s1)")
  let ?ds = "takeWhile is_digit s1" and ?fs = "takeWhile is_digit s3"
  from assms o1 o2 have ne: "?ds \<noteq> []" and m: "m = sign @ ?ds @ dot @ ?fs"
    and r: "rest = dropWhile is_digit s3"
    by (auto simp: match_number_def Let_def split: if_splits)
  have "s = sign @ s1" using o1 by (rule opt_char_append)
  also have "s1 = ?ds @ dropWhile is_digit s1" by simp
  also have "dropWhile is_digit s1 = dot @ s3" using o2 by (rule opt_char_append)
  also have "s3 = ?fs @ rest" using r by simp
  finally have s: "s = sign @ ?ds @ dot @ ?fs @ rest" by simp
  have dig: "list_all is_digit ?ds" "list_all is_digit ?fs"
    by (simp_all add: list_all_iff) (auto dest: set_takeWhileD)
  from opt_char_cases [OF o1] opt_char_cases [OF o2] s m ne dig show ?thesis
    by blast
qed

lemma match_number_shaped: "match_number s = Some (m, rest) \<Longrightarrow> number_shaped m"
  unfolding number_shaped_def using match_number_parts [of s m rest] by blast

lemma match_number_append: "match_number s = Some (m, rest) \<Longrightarrow> s = m @ rest"
  using match_number_parts [of s m rest] by auto

lemma match_number_None:
  assumes "match_number (c # cs) = None"
  shows "\<not> is_digit c"
proof
  assume d: "is_digit c"
  then have "c \<noteq> CHR ''-''" by (auto simp: is_digit_def)
  then have "opt_char (CHR ''-'') (c # cs) = ([], c # cs)" by (simp add: opt_char_def)
  with d have "match_number (c # cs) \<noteq> None"
    by (simp add: match_number_def Let_def split: prod.splits)
  with assms show False by simp
qed

lemma interleave_Cons: "interleave ((c # g) # gs) ns = c # interleave (g # gs) ns"
  by (cases ns) simp_all

lemma findall_shaped: "n \<in> set (findall s) \<Longrightarrow> number_shaped n"
proof (induction s rule: findall.induct)
  case 1
  then show ?case by simp
next
  case (2 c cs)
  then show ?case
    by (auto split: option.splits dest: match_number_shaped)
qed

lemma findall_gaps:
  "\<exists>gaps. length gaps = Suc (length (findall s)) \<and> interleave gaps (findall s) = s \<and>
          (\<forall>g \<in> set gaps. \<forall>c \<in> set g. \<not> is_digit c)"
proof (induction s rule: findall.induct)
  case 1
  have "length [[]::string] = Suc (length (findall [])) \<and> interleave [[]] (findall []) = [] \<and>
        (\<forall>g \<in> set [[]::string]. \<forall>c \<in> set g. \<not> is_digit c)" by simp
  then show ?case by blast
next
  case (2 c cs)
  show ?case
  proof (cases "match_number (c # cs)")
    case None
    with 2 obtain gaps where g: "length gaps = Suc (length (findall cs))"
      "interleave gaps (findall cs) = cs" "\<forall>g \<in> set gaps. \<forall>c \<in> set g. \<not> is_digit c"
      by auto
    then obtain g gs where gg: "gaps = g # gs" by (cases gaps) auto
    have nd: "\<not> is_digit c" using None by (rule match_number_None)
    have "length ((c # g) # gs) = Suc (length (findall (c # cs)))"
      using g gg None by simp
    moreover have "interleave ((c # g) # gs) (findall (c # cs)) = c # cs"
      using g gg None by (simp add: interleave_Cons)
    moreover have "\<forall>g \<in> set ((c # g) # gs). \<forall>c \<in> set g. \<not> is_digit c"
      using g gg nd by auto
    ultimately show ?thesis by blast
  next
    case (Some a)
    obtain m rest where a: "a = (m, rest)" by (cases a)
    with 2 Some obtain gaps where g: "length gaps = Suc (length (findall rest))"
      "interleave gaps (findall rest) = rest" "\<forall>g \<in> set gaps. \<forall>c \<in> set g. \<not> is_digit c"
      by fastforce
    have app: "c # cs = m @ rest" using Some a by (auto dest: match_number_append)
    have fa: "findall (c # cs) = m # findall rest" using Some a by simp
    have "length ([] # gaps) = Suc (length (findall (c # cs)))"
      using g fa by simp
    moreover have "interleave ([] # gaps) (m # findall rest) = m @ rest"
      using g by simp
    then have "interleave ([] # gaps) (findall (c # cs)) = c # cs"
      by (metis fa app)
    moreover have "\<forall>g \<in> set ([] # gaps). \<forall>c \<in> set g. \<not> is_digit c"
      using g by simp
    ultimately show ?thesis by blast
  qed
qed

lemma number_shaped_nonempty: "number_shaped m \<Longrightarrow> m \<noteq> []"
  by (auto simp: number_shaped_def)

lemma not_digit_dot: "\<not> is_digit (CHR ''.'')"
  by (simp add: is_digit_def)

lemma match_number_covers:
  assumes "number_shaped m'"
  shows "\<exists>m rest. match_number (m' @ r') = Some (m, rest) \<and> length m' \<le> length m"
proof -
  from assms obtain sign ds dot fs where m': "m' = sign @ ds @ dot @ fs"
    and sign: "sign = [] \<or> sign = ''-''" and ne: "ds \<noteq> []" and dd: "list_all is_digit ds"
    and dot: "dot = [] \<or> dot = ''.''" and df: "list_all is_digit fs"
    unfolding number_shaped_def by blast
  let ?s1 = "ds @ dot @ fs @ r'"
  from ne dd obtain d ds0 where ds: "ds = d # ds0" and d: "is_digit d"
    by (cases ds) auto
  from d have dm: "d \<noteq> CHR ''-''" by (auto simp: is_digit_def)
  have oc: "opt_char (CHR ''-'') (m' @ r') = (sign, ?s1)"
    using sign dm by (auto simp: m' ds opt_char_def)
  have Pds: "\<And>x. x \<in> set ds \<Longrightarrow> is_digit x" using dd by (simp add: list_all_iff)
  have Pfs: "\<And>x. x \<in> set fs \<Longrightarrow> is_digit x" using df by (simp add: list_all_iff)
  obtain dot2 s3 where o2: "opt_char (CHR ''.'') (dropWhile is_digit ?s1) = (dot2, s3)"
    by (cases "opt_char (CHR ''.'') (dropWhile is_digit ?s1)")
  have tne: "takeWhile is_digit ?s1 \<noteq> []" by (simp add: ds d)
  let ?m = "sign @ takeWhile is_digit ?s1 @ dot2 @ takeWhile is_digit s3"
  have mn: "match_number (m' @ r') = Some (?m, dropWhile is_digit s3)"
    using oc o2 tne by (simp add: match_number_def Let_def)
  have "length (ds @ dot @ fs) \<le> length (takeWhile is_digit ?s1 @ dot2 @ takeWhile is_digit s3)"
  proof (cases "dot = []")
    case True
    have "takeWhile is_digit ?s1 = ds @ fs @ takeWhile is_digit r'"
      using Pds Pfs by (simp add: True takeWhile_append2)
    then show ?thesis by (simp add: True)
  next
    case False
    with dot have dt: "dot = ''.''" by simp
    have t1: "takeWhile is_digit ?s1 = ds"
      using Pds by (simp add: dt takeWhile_append2 not_digit_dot)
    have "dropWhile is_digit ?s1 = CHR ''.'' # fs @ r'"
      using Pds by (simp add: dt dropWhile_append2 not_digit_dot)
    with o2 have d2: "dot2 = ''.''" and s3: "s3 = fs @ r'"
      by (simp_all add: opt_char_def)
    have "takeWhile is_digit s3 = fs @ takeWhile is_digit r'"
      using Pfs by (simp add: s3 takeWhile_append2)
    then show ?thesis using t1 by (simp add: d2 dt)
  qed
  then have "length m' \<le> length ?m" by (simp add: m')
  with mn show ?thesis by blast
qed

lemma number_prefix_covered:
  assumes "number_prefix t m'"
  shows "\<exists>m rest. match_number t = Some (m, rest) \<and> length m' \<le> length m"
proof -
  from assms have sh: "number_shaped m'" and tk: "take (length m') t = m'"
    by (simp_all add: number_prefix_def)
  obtain r where r: "t = m' @ r"
    using tk append_take_drop_id [of "length m'" t] by metis
  show ?thesis unfolding r using sh by (rule match_number_covers)
qed

lemma match_number_prefix: "match_number t = Some (m, rest) \<Longrightarrow> number_prefix t m"
  using match_number_append [of t m rest] match_number_shaped [of t m rest]
  by (simp add: number_prefix_def)

lemma match_number_longest:
  assumes "match_number t = Some (m, rest)"
  shows "longest_number_prefix t m"
proof -
  have "length m' \<le> length m" if "number_prefix t m'" for m'
    using number_prefix_covered [OF that] assms by auto
  with match_number_prefix [OF assms] show ?thesis by (simp add: longest_number_prefix_def)
qed

lemma match_number_None_no_prefix: "match_number t = None \<Longrightarrow> \<not> number_prefix t m'"
  using number_prefix_covered [of t m'] by auto

lemma findall_longest:
  assumes "longest_number_prefix t m"
  shows "findall t = m # findall (drop (length m) t)"
proof -
  from assms have p: "number_prefix t m"
    and mx: "\<And>m'. number_prefix t m' \<Longrightarrow> length m' \<le> length m"
    by (simp_all add: longest_number_prefix_def)
  from p have sh: "number_shaped m" and tk: "take (length m) t = m"
    by (simp_all add: number_prefix_def)
  from number_prefix_covered [OF p]
  obtain m2 rest2 where mn: "match_number t = Some (m2, rest2)" and le: "length m \<le> length m2"
    by blast
  from mn have p2: "number_prefix t m2" by (rule match_number_prefix)
  with mx le have len: "length m2 = length m" by (simp add: le_antisym)
  from p2 have "take (length m2) t = m2" by (simp add: number_prefix_def)
  with tk len have m2: "m2 = m" by metis
  from mn have "t = m2 @ rest2" by (rule match_number_append)
  then have "drop (length m2) t = rest2" by (metis append_eq_conv_conj)
  with m2 have r2: "rest2 = drop (length m) t" by simp
  from sh have "m \<noteq> []" by (rule number_shaped_nonempty)
  with tk obtain c cs where tc: "t = c # cs" by (cases t) auto
  have "findall (c # cs) = m2 # findall rest2" using mn by (simp add: tc)
  then show ?thesis by (simp only: tc [symmetric] m2 r2)
qed

lemma findall_no_prefix:
  assumes "\<forall>m. \<not> number_prefix t m"
  shows "findall t = findall (drop 1 t)"
proof (cases t)
  case Nil
  then show ?thesis by simp
next
  case (Cons c cs)
  have "match_number (c # cs) = None"
  proof (cases "match_number (c # cs)")
    case None
    then show ?thesis .
  next
    case (Some a)
    obtain m rest where "a = (m, rest)" by (cases a)
    with Some have "number_prefix (c # cs) m" by (simp add: match_number_prefix)
    with assms Cons show ?thesis by simp
  qed
  with Cons show ?thesis by simp
qed

section \<open>Properties of the decoder\<close>

text \<open>
  Claim C3.  The format of a trimmed line is chosen in the fixed order braces, then
  \<^verbatim>\<open>=\<close>, then \<^verbatim>\<open>,\<close>, then generic numeric: the decoder runs the parser of the class that
  this order assigns.  In particular a trimmed line that contains both \<^verbatim>\<open>=\<close> and \<^verbatim>\<open>,\<close> and
  is not brace-delimited is parsed as key=value, not as delimited.
\<close>

theorem classification_priority:
  "parse_sensor_data py raw = parse_as (classify (strip raw)) py (strip raw) \<and>
   (CHR ''='' \<in> set (strip raw) \<and> CHR '','' \<in> set (strip raw) \<and> \<not> brace_delimited (strip raw)
      \<longrightarrow> classify (strip raw) = Key_Value \<and>
          parse_sensor_data py raw = parse_key_value_format py (strip raw))"
  by (simp add: parse_sensor_data_def classify_def brace_delimited_def Let_def)

text \<open>
  The line below has five comma-separated segments, so the delimited parser would accept
  it, with the whole first segment as the device; the decoder gives the result of the
  key=value parser instead.
\<close>

lemma strip_kv_example:
  "strip ''device_id=A,humidity=1,x,y,z'' = ''device_id=A,humidity=1,x,y,z''"
  by (simp add: strip_def is_space_def)

theorem classification_priority_witness:
  "CHR ''='' \<in> set (strip ''device_id=A,humidity=1,x,y,z'') \<and>
   CHR '','' \<in> set (strip ''device_id=A,humidity=1,x,y,z'') \<and>
   \<not> brace_delimited (strip ''device_id=A,humidity=1,x,y,z'') \<and>
   classify (strip ''device_id=A,humidity=1,x,y,z'') = Key_Value \<and>
   parse_sensor_data sample_python ''device_id=A,humidity=1,x,y,z'' =
     parse_key_value_format sample_python ''device_id=A,humidity=1,x,y,z'' \<and>
   parse_key_value_format sample_python ''device_id=A,humidity=1,x,y,z'' =
     Some [''device_id'' \<mapsto> PyStr ''A'', ''humidity'' \<mapsto> PyFloat ''1'',
           ''transmitted'' \<mapsto> PyBool False] \<and>
   parse_csv_format sample_python ''device_id=A,humidity=1,x,y,z'' =
     Some [''device_id'' \<mapsto> PyStr ''device_id=A'', ''ambient_temperature'' \<mapsto> PyNone,
           ''humidity'' \<mapsto> PyNone, ''soil_moisture'' \<mapsto> PyNone,
           ''soil_temperature'' \<mapsto> PyNone, ''wind_speed'' \<mapsto> PyNone,
           ''longitude'' \<mapsto> PyNone, ''latitude'' \<mapsto> PyNone,
           ''transmitted'' \<mapsto> PyBool False]"
proof -
  have kv: "parse_key_value_format sample_python ''device_id=A,humidity=1,x,y,z'' =
     Some [''device_id'' \<mapsto> PyStr ''A'', ''humidity'' \<mapsto> PyFloat ''1'',
           ''transmitted'' \<mapsto> PyBool False]"
    by (simp add: parse_key_value_format_def kv_loop_def kv_step_def sensor_columns_def
          safe_float_str_def sample_python_def sample_float_def str_defs Let_def)
  have csv: "parse_csv_format sample_python ''device_id=A,humidity=1,x,y,z'' =
     Some [''device_id'' \<mapsto> PyStr ''device_id=A'', ''ambient_temperature'' \<mapsto> PyNone,
           ''humidity'' \<mapsto> PyNone, ''soil_moisture'' \<mapsto> PyNone,
           ''soil_temperature'' \<mapsto> PyNone, ''wind_speed'' \<mapsto> PyNone,
           ''longitude'' \<mapsto> PyNone, ''latitude'' \<mapsto> PyNone,
           ''transmitted'' \<mapsto> PyBool False]"
    by (simp add: parse_csv_format_def safe_float_str_def sample_python_def sample_float_def
          str_defs Let_def)
  show ?thesis
    using classification_priority [of sample_python "''device_id=A,humidity=1,x,y,z''"] kv csv
    by (simp add: strip_kv_example brace_delimited_def startswith_char_def)
qed

text \<open>
  Claim C5.  A trimmed line without \<^verbatim>\<open>=\<close> and without \<^verbatim>\<open>,\<close> that is not brace-delimited is
  parsed as generic numeric.  With fewer than four numbers the parse fails; otherwise it
  succeeds, the device is \<^verbatim>\<open>unknown\<close>, the first four numbers fill ambient temperature,
  humidity, soil moisture and soil temperature, and the fifth to seventh, where they
  exist, wind speed, longitude and latitude.  The numbers extracted are the matches of
  the signed-decimal pattern in order of appearance: each has the shape of the pattern,
  the line is the numbers with gaps between them, and no digit is left in a gap.  The
  extraction is the leftmost-longest scan: where the text has a prefix of the pattern's
  shape, the longest such prefix (sign included) is the next number and the scan goes on
  behind it; where it has none, the scan moves one character on.
\<close>

theorem generic_numeric_format:
  assumes "CHR ''='' \<notin> set (strip raw)" and "CHR '','' \<notin> set (strip raw)"
    and "\<not> brace_delimited (strip raw)"
  shows "(length (findall (strip raw)) < 4 \<longrightarrow> parse_sensor_data py raw = None) \<and>
         (length (findall (strip raw)) \<ge> 4 \<longrightarrow>
            parse_sensor_data py raw =
              Some [''device_id'' \<mapsto> PyStr ''unknown'',
                    ''ambient_temperature'' \<mapsto> safe_float_str py (findall (strip raw) ! 0),
                    ''humidity'' \<mapsto> safe_float_str py (findall (strip raw) ! 1),
                    ''soil_moisture'' \<mapsto> safe_float_str py (findall (strip raw) ! 2),
                    ''soil_temperature'' \<mapsto> safe_float_str py (findall (strip raw) ! 3),
                    ''wind_speed'' \<mapsto> (if length (findall (strip raw)) > 4
                       then safe_float_str py (findall (strip raw) ! 4) else PyNone),
                    ''longitude'' \<mapsto> (if length (findall (strip raw)) > 5
                       then safe_float_str py (findall (strip raw) ! 5) else PyNone),
                    ''latitude'' \<mapsto> (if length (findall (strip raw)) > 6
                       then safe_float_str py (findall (strip raw) ! 6) else PyNone),
                    ''transmitted'' \<mapsto> PyBool False]) \<and>
         (\<forall>n \<in> set (findall (strip raw)). number_shaped n) \<and>
         (\<exists>gaps. length gaps = Suc (length (findall (strip raw))) \<and>
                 interleave gaps (findall (strip raw)) = strip raw \<and>
                 (\<forall>g \<in> set gaps. \<forall>c \<in> set g. \<not> is_digit c)) \<and>
         findall [] = [] \<and>
         (\<forall>t m. longest_number_prefix t m \<longrightarrow> findall t = m # findall (drop (length m) t)) \<and>
         (\<forall>t. (\<forall>m. \<not> number_prefix t m) \<longrightarrow> findall t = findall (drop 1 t))"
proof -
  have "parse_sensor_data py raw = parse_generic_format py (strip raw)"
    using assms by (auto simp: parse_sensor_data_def brace_delimited_def Let_def)
  then have "(length (findall (strip raw)) < 4 \<longrightarrow> parse_sensor_data py raw = None) \<and>
         (length (findall (strip raw)) \<ge> 4 \<longrightarrow>
            parse_sensor_data py raw =
              Some [''device_id'' \<mapsto> PyStr ''unknown'',
                    ''ambient_temperature'' \<mapsto> safe_float_str py (findall (strip raw) ! 0),
                    ''humidity'' \<mapsto> safe_float_str py (findall (strip raw) ! 1),
                    ''soil_moisture'' \<mapsto> safe_float_str py (findall (strip raw) ! 2),
                    ''soil_temperature'' \<mapsto> safe_float_str py (findall (strip raw) ! 3),
                    ''wind_speed'' \<mapsto> (if length (findall (strip raw)) > 4
                       then safe_float_str py (findall (strip raw) ! 4) else PyNone),
                    ''longitude'' \<mapsto> (if length (findall (strip raw)) > 5
                       then safe_float_str py (findall (strip raw) ! 5) else PyNone),
                    ''latitude'' \<mapsto> (if length (findall (strip raw)) > 6
                       then safe_float_str py (findall (strip raw) ! 6) else PyNone),
                    ''transmitted'' \<mapsto> PyBool False])"
    by (simp add: parse_generic_format_def Let_def)
  moreover have "\<forall>n \<in> set (findall (strip raw)). number_shaped n"
    using findall_shaped by blast
  moreover note findall_gaps [of "strip raw"]
  moreover have "findall [] = []" by simp
  moreover have "\<forall>t m. longest_number_prefix t m \<longrightarrow>
                   findall t = m # findall (drop (length m) t)"
    using findall_longest by blast
  moreover have "\<forall>t. (\<forall>m. \<not> number_prefix t m) \<longrightarrow> findall t = findall (drop 1 t)"
    using findall_no_prefix by blast
  ultimately show ?thesis by blast
qed

lemma findall_ex: "findall ''27.3 55.6 39.7 24.2'' = [''27.3'', ''55.6'', ''39.7'', ''24.2'']"
  by (simp add: str_defs)

lemma findall_signed_example:
  "findall ''27.3 55.6 39.7 24.2 3.9 -122.4194 37.7749'' =
     [''27.3'', ''55.6'', ''39.7'', ''24.2'', ''3.9'', ''-122.4194'', ''37.7749'']"
  by (simp add: str_defs)

theorem generic_numeric_format_witness:
  "CHR ''='' \<notin> set (strip ''27.3 55.6 39.7 24.2 3.9 -122.4194 37.7749'') \<and>
   CHR '','' \<notin> set (strip ''27.3 55.6 39.7 24.2 3.9 -122.4194 37.7749'') \<and>
   \<not> brace_delimited (strip ''27.3 55.6 39.7 24.2 3.9 -122.4194 37.7749'') \<and>
   findall (strip ''27.3 55.6 39.7 24.2 3.9 -122.4194 37.7749'') =
     [''27.3'', ''55.6'', ''39.7'', ''24.2'', ''3.9'', ''-122.4194'', ''37.7749''] \<and>
   parse_sensor_data sample_python ''27.3 55.6 39.7 24.2 3.9 -122.4194 37.7749'' =
     Some [''device_id'' \<mapsto> PyStr ''unknown'',
           ''ambient_temperature'' \<mapsto> PyFloat ''27.3'',
           ''humidity'' \<mapsto> PyFloat ''55.6'',
           ''soil_moisture'' \<mapsto> PyFloat ''39.7'',
           ''soil_temperature'' \<mapsto> PyFloat ''24.2'',
           ''wind_speed'' \<mapsto> PyFloat ''3.9'',
           ''longitude'' \<mapsto> PyFloat ''-122.4194'',
           ''latitude'' \<mapsto> PyFloat ''37.7749'',
           ''transmitted'' \<mapsto> PyBool False]"
proof -
  have t: "strip ''27.3 55.6 39.7 24.2 3.9 -122.4194 37.7749'' =
             ''27.3 55.6 39.7 24.2 3.9 -122.4194 37.7749''"
    by (simp add: strip_def is_space_def)
  have h: "CHR ''='' \<notin> set (strip ''27.3 55.6 39.7 24.2 3.9 -122.4194 37.7749'')"
    "CHR '','' \<notin> set (strip ''27.3 55.6 39.7 24.2 3.9 -122.4194 37.7749'')"
    "\<not> brace_delimited (strip ''27.3 55.6 39.7 24.2 3.9 -122.4194 37.7749'')"
    by (simp_all add: t brace_delimited_def startswith_char_def)
  have f: "float_str sample_python ''27.3'' = Some ''27.3''"
    "float_str sample_python ''55.6'' = Some ''55.6''"
    "float_str sample_python ''39.7'' = Some ''39.7''"
    "float_str sample_python ''24.2'' = Some ''24.2''"
    "float_str sample_python ''3.9'' = Some ''3.9''"
    "float_str sample_python ''-122.4194'' = Some ''-122.4194''"
    "float_str sample_python ''37.7749'' = Some ''37.7749''"
    by (simp_all add: sample_python_def sample_float_def str_defs)
  have g: "findall (strip ''27.3 55.6 39.7 24.2 3.9 -122.4194 37.7749'') =
     [''27.3'', ''55.6'', ''39.7'', ''24.2'', ''3.9'', ''-122.4194'', ''37.7749'']"
    by (simp only: t findall_signed_example)
  from generic_numeric_format [OF h, of sample_python]
  have "parse_sensor_data sample_python ''27.3 55.6 39.7 24.2 3.9 -122.4194 37.7749'' =
     Some [''device_id'' \<mapsto> PyStr ''unknown'',
           ''ambient_temperature'' \<mapsto> PyFloat ''27.3'',
           ''humidity'' \<mapsto> PyFloat ''55.6'',
           ''soil_moisture'' \<mapsto> PyFloat ''39.7'',
           ''soil_temperature'' \<mapsto> PyFloat ''24.2'',
           ''wind_speed'' \<mapsto> PyFloat ''3.9'',
           ''longitude'' \<mapsto> PyFloat ''-122.4194'',
           ''latitude'' \<mapsto> PyFloat ''37.7749'',
           ''transmitted'' \<mapsto> PyBool False]"
    by (simp add: g f safe_float_str_def)
  with h g show ?thesis by blast
qed

lemma split_on_nonempty: "split_on c s \<noteq> []"
  by (induction s) (auto split: list.splits)

lemma split_on_no_sep: "p \<in> set (split_on c s) \<Longrightarrow> c \<notin> set p"
  by (induction s arbitrary: p) (auto split: list.splits if_splits)

lemma join_split_on: "join c (split_on c s) = s"
proof (induction s)
  case Nil
  show ?case by simp
next
  case (Cons x xs)
  obtain p ps where sp: "split_on c xs = p # ps"
    using split_on_nonempty [of c xs] by (cases "split_on c xs") auto
  show ?case
  proof (cases "x = c")
    case True
    with Cons sp show ?thesis by simp
  next
    case False
    with Cons sp show ?thesis by (cases ps) auto
  qed
qed

lemma split_on_length: "length (split_on c s) = Suc (length (filter (\<lambda>x. x = c) s))"
  by (induction s) (auto split: list.splits simp: split_on_nonempty)

text \<open>
  Claim C4.  A trimmed line with a \<^verbatim>\<open>,\<close>, without \<^verbatim>\<open>=\<close>, and not brace-delimited is parsed
  as delimited, and that decides it: with fewer than five positions the decoder fails and
  the generic numeric parser is not tried.  With exactly five positions it succeeds: the
  device is the trimmed first position, the four sensor values come from positions two to
  five, wind speed, longitude and latitude are absent.  The positions are the pieces of
  the line between the commas.
\<close>

theorem delimited_format:
  assumes "CHR '','' \<in> set (strip raw)" and "CHR ''='' \<notin> set (strip raw)"
    and "\<not> brace_delimited (strip raw)"
  shows "(length (split_on (CHR '','') (strip raw)) < 5 \<longrightarrow> parse_sensor_data py raw = None) \<and>
         (length (split_on (CHR '','') (strip raw)) = 5 \<longrightarrow>
            parse_sensor_data py raw =
              Some [''device_id'' \<mapsto> PyStr (strip (split_on (CHR '','') (strip raw) ! 0)),
                    ''ambient_temperature'' \<mapsto>
                        safe_float_str py (split_on (CHR '','') (strip raw) ! 1),
                    ''humidity'' \<mapsto> safe_float_str py (split_on (CHR '','') (strip raw) ! 2),
                    ''soil_moisture'' \<mapsto> safe_float_str py (split_on (CHR '','') (strip raw) ! 3),
                    ''soil_temperature'' \<mapsto>
                        safe_float_str py (split_on (CHR '','') (strip raw) ! 4),
                    ''wind_speed'' \<mapsto> PyNone, ''longitude'' \<mapsto> PyNone,
                    ''latitude'' \<mapsto> PyNone, ''transmitted'' \<mapsto> PyBool False]) \<and>
         join (CHR '','') (split_on (CHR '','') (strip raw)) = strip raw \<and>
         (\<forall>p \<in> set (split_on (CHR '','') (strip raw)). CHR '','' \<notin> set p)"
proof -
  have "parse_sensor_data py raw = parse_csv_format py (strip raw)"
    using assms by (auto simp: parse_sensor_data_def brace_delimited_def Let_def)
  then show ?thesis
    using split_on_no_sep [of _ "CHR '',''" "strip raw"]
    by (simp add: parse_csv_format_def Let_def join_split_on)
qed

theorem delimited_format_witness:
  "(CHR '','' \<in> set (strip ''T2,26.1,58.9,42.3,23.5'') \<and>
    CHR ''='' \<notin> set (strip ''T2,26.1,58.9,42.3,23.5'') \<and>
    \<not> brace_delimited (strip ''T2,26.1,58.9,42.3,23.5'') \<and>
    length (split_on (CHR '','') (strip ''T2,26.1,58.9,42.3,23.5'')) = 5 \<and>
    parse_sensor_data sample_python ''T2,26.1,58.9,42.3,23.5'' =
      Some [''device_id'' \<mapsto> PyStr ''T2'',
            ''ambient_temperature'' \<mapsto> PyFloat ''26.1'',
            ''humidity'' \<mapsto> PyFloat ''58.9'',
            ''soil_moisture'' \<mapsto> PyFloat ''42.3'',
            ''soil_temperature'' \<mapsto> PyFloat ''23.5'',
            ''wind_speed'' \<mapsto> PyNone, ''longitude'' \<mapsto> PyNone, ''latitude'' \<mapsto> PyNone,
            ''transmitted'' \<mapsto> PyBool False]) \<and>
   (CHR '','' \<in> set (strip ''1,2,3,4'') \<and> CHR ''='' \<notin> set (strip ''1,2,3,4'') \<and>
    \<not> brace_delimited (strip ''1,2,3,4'') \<and>
    length (split_on (CHR '','') (strip ''1,2,3,4'')) < 5 \<and>
    parse_sensor_data sample_python ''1,2,3,4'' = None \<and>
    parse_generic_format sample_python ''1,2,3,4'' \<noteq> None)"
proof -
  have t: "strip ''T2,26.1,58.9,42.3,23.5'' = ''T2,26.1,58.9,42.3,23.5''"
    and u: "strip ''1,2,3,4'' = ''1,2,3,4''"
    by (simp_all add: strip_def is_space_def)
  have h: "CHR '','' \<in> set (strip ''T2,26.1,58.9,42.3,23.5'')"
    "CHR ''='' \<notin> set (strip ''T2,26.1,58.9,42.3,23.5'')"
    "\<not> brace_delimited (strip ''T2,26.1,58.9,42.3,23.5'')"
    by (simp_all add: t brace_delimited_def startswith_char_def)
  have k: "CHR '','' \<in> set (strip ''1,2,3,4'')" "CHR ''='' \<notin> set (strip ''1,2,3,4'')"
    "\<not> brace_delimited (strip ''1,2,3,4'')"
    by (simp_all add: u brace_delimited_def startswith_char_def)
  have g: "parse_generic_format sample_python ''1,2,3,4'' \<noteq> None"
    by (simp add: parse_generic_format_def str_defs)
  show ?thesis
    using h k g delimited_format [OF h, of sample_python] delimited_format [OF k, of sample_python]
    by (simp add: t u safe_float_str_def sample_python_def sample_float_def str_defs)
qed

subsection \<open>The key=value format\<close>

lemma column_of_unfold:
  "column_of k =
     (if k = ''device_id'' then Some ''device_id''
      else if k = ''ambient_temp'' then Some ''ambient_temperature''
      else if k = ''humidity'' then Some ''humidity''
      else if k = ''soil_moisture'' then Some ''soil_moisture''
      else if k = ''soil_temp'' then Some ''soil_temperature''
      else if k = ''wind_speed'' then Some ''wind_speed''
      else if k = ''longitude'' then Some ''longitude''
      else if k = ''latitude'' then Some ''latitude''
      else None)"
  by (simp add: column_of_def sensor_keys_def sensor_columns_def)

lemma kv_chain:
  "(if key = ''device_id'' then data(''device_id'' \<mapsto> PyStr val)
    else if key = ''ambient_temp'' then data(''ambient_temperature'' \<mapsto> safe_float_str py val)
    else if key = ''humidity'' then data(''humidity'' \<mapsto> safe_float_str py val)
    else if key = ''soil_moisture'' then data(''soil_moisture'' \<mapsto> safe_float_str py val)
    else if key = ''soil_temp'' then data(''soil_temperature'' \<mapsto> safe_float_str py val)
    else if key = ''wind_speed'' then data(''wind_speed'' \<mapsto> safe_float_str py val)
    else if key = ''longitude'' then data(''longitude'' \<mapsto> safe_float_str py val)
    else if key = ''latitude'' then data(''latitude'' \<mapsto> safe_float_str py val)
    else data) =
   (case column_of key of
      None \<Rightarrow> data
    | Some col \<Rightarrow> data(col \<mapsto> stored_value py key val))"
  by (simp add: column_of_unfold stored_value_def)

lemma kv_step_eq:
  "kv_step py data pair =
     (if has_eq pair then
        (case column_of (key_of pair) of
           None \<Rightarrow> data
         | Some col \<Rightarrow> data(col \<mapsto> stored_value py (key_of pair) (value_of pair)))
      else data)"
  unfolding kv_step_def has_eq_def key_of_def value_of_def Let_def case_prod_beta kv_chain
  by (rule refl)

lemma column_of_key:
  "column_of k = Some c \<Longrightarrow>
   k = (if c = ''device_id'' then ''device_id''
        else if c = ''ambient_temperature'' then ''ambient_temp''
        else if c = ''soil_temperature'' then ''soil_temp''
        else c)"
  by (auto simp: column_of_unfold split: if_splits)

lemma column_of_inj: "column_of k = Some c \<Longrightarrow> column_of k' = Some c \<Longrightarrow> k = k'"
  using column_of_key [of k c] column_of_key [of k' c] by simp

lemma column_of_device: "column_of k = Some ''device_id'' \<longleftrightarrow> k = ''device_id''"
  by (simp add: column_of_unfold)

lemma column_of_sensor:
  "(\<exists>c \<in> set sensor_columns. column_of k = Some c) \<longleftrightarrow> k \<in> set sensor_keys"
  by (simp add: column_of_unfold sensor_columns_def sensor_keys_def)

lemma foldl_kv_step_dom:
  "foldl (kv_step py) d pairs c \<noteq> None \<longleftrightarrow>
     d c \<noteq> None \<or> (\<exists>p \<in> set pairs. has_eq p \<and> column_of (key_of p) = Some c)"
proof (induction pairs arbitrary: d)
  case Nil
  show ?case by simp
next
  case (Cons p ps)
  show ?case
    unfolding foldl.simps Cons.IH
    by (auto simp: kv_step_eq split: option.splits)
qed

lemma foldl_kv_step_untouched:
  "\<forall>q \<in> set qs. has_eq q \<longrightarrow> column_of (key_of q) \<noteq> Some c \<Longrightarrow>
   foldl (kv_step py) d qs c = d c"
proof (induction qs arbitrary: d)
  case Nil
  show ?case by simp
next
  case (Cons q qs)
  then have "foldl (kv_step py) (kv_step py d q) qs c = kv_step py d q c" by simp
  also have "kv_step py d q c = d c"
    using Cons.prems by (auto simp: kv_step_eq split: option.splits)
  finally show ?case by simp
qed

lemma kv_loop_last:
  assumes "pairs = before @ p # after" and "has_eq p" and "column_of (key_of p) = Some c"
    and "\<forall>q \<in> set after. has_eq q \<longrightarrow> key_of q \<noteq> key_of p"
  shows "kv_loop py pairs c = Some (stored_value py (key_of p) (value_of p))"
proof -
  have un: "\<forall>q \<in> set after. has_eq q \<longrightarrow> column_of (key_of q) \<noteq> Some c"
    using assms(3,4) column_of_inj by blast
  have "kv_loop py pairs c =
          foldl (kv_step py) (kv_step py (foldl (kv_step py) Map.empty before) p) after c"
    by (simp add: kv_loop_def assms(1))
  also have "\<dots> = kv_step py (foldl (kv_step py) Map.empty before) p c"
    using un by (rule foldl_kv_step_untouched)
  also have "\<dots> = Some (stored_value py (key_of p) (value_of p))"
    using assms(2,3) by (simp add: kv_step_eq)
  finally show ?thesis .
qed

lemma kv_step_skip: "\<not> has_eq seg \<Longrightarrow> kv_step py data seg = data"
  by (simp add: kv_step_eq)

lemma foldl_kv_step_filter:
  "foldl (kv_step py) d (filter has_eq pairs) = foldl (kv_step py) d pairs"
  by (induction pairs arbitrary: d) (simp_all add: kv_step_skip)

lemma kv_loop_filter: "kv_loop py (filter has_eq pairs) = kv_loop py pairs"
  by (simp add: kv_loop_def foldl_kv_step_filter)

lemma parse_key_value_format_Some:
  "parse_key_value_format py t \<noteq> None \<longleftrightarrow>
     (\<exists>p \<in> set (split_on (CHR '','') t). has_eq p \<and> key_of p = ''device_id'') \<and>
     (\<exists>p \<in> set (split_on (CHR '','') t). has_eq p \<and> key_of p \<in> set sensor_keys)"
proof -
  let ?ps = "split_on (CHR '','') t"
  have dev: "kv_loop py ?ps ''device_id'' \<noteq> None \<longleftrightarrow>
               (\<exists>p \<in> set ?ps. has_eq p \<and> key_of p = ''device_id'')"
    unfolding kv_loop_def foldl_kv_step_dom by (simp add: column_of_device)
  have "list_ex (\<lambda>key. kv_loop py ?ps key \<noteq> None) sensor_columns \<longleftrightarrow>
          (\<exists>c \<in> set sensor_columns. \<exists>p \<in> set ?ps. has_eq p \<and> column_of (key_of p) = Some c)"
    unfolding list_ex_iff kv_loop_def foldl_kv_step_dom by simp
  also have "\<dots> \<longleftrightarrow> (\<exists>p \<in> set ?ps. has_eq p \<and> (\<exists>c \<in> set sensor_columns. column_of (key_of p) = Some c))"
    by blast
  also have "\<dots> \<longleftrightarrow> (\<exists>p \<in> set ?ps. has_eq p \<and> key_of p \<in> set sensor_keys)"
    by (simp only: column_of_sensor)
  finally have sen: "list_ex (\<lambda>key. kv_loop py ?ps key \<noteq> None) sensor_columns \<longleftrightarrow>
      (\<exists>p \<in> set ?ps. has_eq p \<and> key_of p \<in> set sensor_keys)" .
  show ?thesis
    unfolding parse_key_value_format_def Let_def using dev sen by simp
qed

lemma is_space_lower_char: "is_space (lower_char c) = is_space c"
  by (simp add: lower_char_def is_space_def)

lemma lower_strip: "lower (strip k) = strip (lower k)"
proof -
  have comp: "is_space \<circ> lower_char = is_space"
    by (rule ext) (simp add: is_space_lower_char)
  show ?thesis
    by (simp add: lower_def strip_def rev_map dropWhile_map comp)
qed

lemma key_case_variant_has_eq: "key_case_variant p q \<Longrightarrow> has_eq q = has_eq p"
  by (auto simp: key_case_variant_def split: if_splits)

lemma key_case_variant_key: "key_case_variant p q \<Longrightarrow> has_eq p \<Longrightarrow> key_of q = key_of p"
  by (simp add: key_case_variant_def key_of_def lower_strip)

lemma key_case_variant_value: "key_case_variant p q \<Longrightarrow> has_eq p \<Longrightarrow> value_of q = value_of p"
  by (simp add: key_case_variant_def value_of_def)

lemma kv_step_variant:
  assumes "key_case_variant p q"
  shows "kv_step py d q = kv_step py d p"
proof (cases "has_eq p")
  case True
  have "has_eq q" "key_of q = key_of p" "value_of q = value_of p"
    using assms True
    by (simp_all add: key_case_variant_has_eq key_case_variant_key key_case_variant_value)
  then show ?thesis by (simp add: kv_step_eq True cong: option.case_cong)
next
  case False
  with assms have "q = p" by (simp add: key_case_variant_def)
  then show ?thesis by simp
qed

lemma foldl_kv_step_variant:
  "list_all2 key_case_variant ps qs \<Longrightarrow> foldl (kv_step py) d qs = foldl (kv_step py) d ps"
  by (induction ps qs arbitrary: d rule: list_all2_induct) (simp_all add: kv_step_variant)

lemma sep_in_iff: "c \<in> set s \<longleftrightarrow> length (split_on c s) > 1"
  by (auto simp: split_on_length filter_empty_conv)

lemma endswith_char_append_sep:
  "c \<noteq> sep \<Longrightarrow> endswith_char c (a @ sep # b) = endswith_char c b"
  by (auto simp: endswith_char_def)

lemma startswith_char_append_sep:
  "c \<noteq> sep \<Longrightarrow> startswith_char c (a @ sep # b) = startswith_char c a"
  by (cases a) (auto simp: startswith_char_def)

lemma char_in_join:
  "c \<noteq> sep \<Longrightarrow> c \<in> set (join sep ps) \<longleftrightarrow> (\<exists>p \<in> set ps. c \<in> set p)"
  by (induction sep ps rule: join.induct) auto

lemma startswith_join:
  "c \<noteq> sep \<Longrightarrow> ps \<noteq> [] \<Longrightarrow> startswith_char c (join sep ps) = startswith_char c (hd ps)"
  by (induction sep ps rule: join.induct) (simp_all add: startswith_char_append_sep)

lemma endswith_join:
  "c \<noteq> sep \<Longrightarrow> ps \<noteq> [] \<Longrightarrow> endswith_char c (join sep ps) = endswith_char c (last ps)"
  by (induction sep ps rule: join.induct) (simp_all add: endswith_char_append_sep)

lemma char_in_split_on:
  "c \<noteq> sep \<Longrightarrow> c \<in> set s \<longleftrightarrow> (\<exists>p \<in> set (split_on sep s). c \<in> set p)"
  using char_in_join [of c sep "split_on sep s"] by (simp add: join_split_on)

lemma startswith_split_on:
  "c \<noteq> sep \<Longrightarrow> startswith_char c s = startswith_char c (hd (split_on sep s))"
  using startswith_join [of c sep "split_on sep s"] by (simp add: join_split_on split_on_nonempty)

lemma endswith_split_on:
  "c \<noteq> sep \<Longrightarrow> endswith_char c s = endswith_char c (last (split_on sep s))"
  using endswith_join [of c sep "split_on sep s"] by (simp add: join_split_on split_on_nonempty)

lemma split_first_decomp:
  assumes "has_eq p"
  shows "p = fst (split_first (CHR ''='') p) @ CHR ''='' # snd (split_first (CHR ''='') p)"
proof -
  let ?d = "dropWhile (\<lambda>x. x \<noteq> CHR ''='') p"
  from assms have "?d \<noteq> []"
    by (simp add: has_eq_def dropWhile_eq_Nil_conv)
  moreover from this have "hd ?d = CHR ''=''"
    using hd_dropWhile [of "\<lambda>x. x \<noteq> CHR ''=''" p] by simp
  ultimately have r: "?d = CHR ''='' # drop 1 ?d"
    by (cases ?d) simp_all
  have "p = takeWhile (\<lambda>x. x \<noteq> CHR ''='') p @ ?d" by simp
  also have "\<dots> = takeWhile (\<lambda>x. x \<noteq> CHR ''='') p @ CHR ''='' # drop 1 ?d"
    using r by simp
  finally show ?thesis by (simp add: split_first_def)
qed

lemma lower_char_brace: "lower_char c = CHR ''{'' \<longleftrightarrow> c = CHR ''{''"
  by (simp add: lower_char_def)

lemma startswith_char_lower:
  "startswith_char (CHR ''{'') (lower k) = startswith_char (CHR ''{'') k"
  by (cases k) (simp_all add: startswith_char_def lower_def lower_char_brace)

lemma key_case_variant_startswith:
  assumes "key_case_variant p q"
  shows "startswith_char (CHR ''{'') q = startswith_char (CHR ''{'') p"
proof (cases "has_eq p")
  case False
  with assms show ?thesis by (simp add: key_case_variant_def)
next
  case True
  let ?k = "fst (split_first (CHR ''='') p)" and ?k' = "fst (split_first (CHR ''='') q)"
  from assms True have hq: "has_eq q" and lk: "lower ?k = lower ?k'"
    by (simp_all add: key_case_variant_def)
  have ne: "CHR ''{'' \<noteq> CHR ''=''" by simp
  have "startswith_char (CHR ''{'') p =
        startswith_char (CHR ''{'') (?k @ CHR ''='' # snd (split_first (CHR ''='') p))"
    using split_first_decomp [OF True] by simp
  also have "\<dots> = startswith_char (CHR ''{'') ?k"
    using ne by (rule startswith_char_append_sep)
  also have "\<dots> = startswith_char (CHR ''{'') (lower ?k)"
    by (simp add: startswith_char_lower)
  finally have a: "startswith_char (CHR ''{'') p = startswith_char (CHR ''{'') (lower ?k)" .
  have "startswith_char (CHR ''{'') q =
        startswith_char (CHR ''{'') (?k' @ CHR ''='' # snd (split_first (CHR ''='') q))"
    using split_first_decomp [OF hq] by simp
  also have "\<dots> = startswith_char (CHR ''{'') ?k'"
    using ne by (rule startswith_char_append_sep)
  also have "\<dots> = startswith_char (CHR ''{'') (lower ?k')"
    by (simp add: startswith_char_lower)
  finally show ?thesis using a lk by simp
qed

lemma key_case_variant_endswith:
  assumes "key_case_variant p q"
  shows "endswith_char (CHR ''}'') q = endswith_char (CHR ''}'') p"
proof (cases "has_eq p")
  case False
  with assms show ?thesis by (simp add: key_case_variant_def)
next
  case True
  let ?v = "snd (split_first (CHR ''='') p)"
  from assms True have hq: "has_eq q" and v: "snd (split_first (CHR ''='') q) = ?v"
    by (simp_all add: key_case_variant_def)
  have ne: "CHR ''}'' \<noteq> CHR ''=''" by simp
  have "endswith_char (CHR ''}'') p =
        endswith_char (CHR ''}'') (fst (split_first (CHR ''='') p) @ CHR ''='' # ?v)"
    using split_first_decomp [OF True] by simp
  also have "\<dots> = endswith_char (CHR ''}'') ?v"
    using ne by (rule endswith_char_append_sep)
  finally have a: "endswith_char (CHR ''}'') p = endswith_char (CHR ''}'') ?v" .
  have "endswith_char (CHR ''}'') q =
        endswith_char (CHR ''}'') (fst (split_first (CHR ''='') q) @ CHR ''='' # ?v)"
    using split_first_decomp [OF hq] v by simp
  also have "\<dots> = endswith_char (CHR ''}'') ?v"
    using ne by (rule endswith_char_append_sep)
  finally show ?thesis using a by simp
qed

lemma list_all2_hd_last:
  "list_all2 R ps qs \<Longrightarrow> ps \<noteq> [] \<Longrightarrow> R (hd ps) (hd qs) \<and> R (last ps) (last qs)"
  by (induction ps qs rule: list_all2_induct) (auto simp: list_all2_Cons1)

lemma list_all2_ex_cong:
  "list_all2 R ps qs \<Longrightarrow> (\<And>p q. R p q \<Longrightarrow> P q = P p) \<Longrightarrow>
   (\<exists>q \<in> set qs. P q) = (\<exists>p \<in> set ps. P p)"
  by (induction ps qs rule: list_all2_induct) auto

lemma key_case_variant_classify:
  assumes "list_all2 key_case_variant (split_on (CHR '','') t) (split_on (CHR '','') t')"
  shows "classify t' = classify t"
proof -
  let ?ps = "split_on (CHR '','') t" and ?qs = "split_on (CHR '','') t'"
  have hl: "key_case_variant (hd ?ps) (hd ?qs)" "key_case_variant (last ?ps) (last ?qs)"
    using list_all2_hd_last [OF assms split_on_nonempty] by simp_all
  have ne: "CHR ''{'' \<noteq> CHR '',''" "CHR ''}'' \<noteq> CHR '',''" "CHR ''='' \<noteq> CHR '',''"
    by simp_all
  have "startswith_char (CHR ''{'') t' = startswith_char (CHR ''{'') (hd ?qs)"
    using ne(1) by (rule startswith_split_on)
  also have "\<dots> = startswith_char (CHR ''{'') (hd ?ps)"
    using hl(1) by (rule key_case_variant_startswith)
  also have "\<dots> = startswith_char (CHR ''{'') t"
    using ne(1) by (rule startswith_split_on [symmetric])
  finally have s: "startswith_char (CHR ''{'') t' = startswith_char (CHR ''{'') t" .
  have "endswith_char (CHR ''}'') t' = endswith_char (CHR ''}'') (last ?qs)"
    using ne(2) by (rule endswith_split_on)
  also have "\<dots> = endswith_char (CHR ''}'') (last ?ps)"
    using hl(2) by (rule key_case_variant_endswith)
  also have "\<dots> = endswith_char (CHR ''}'') t"
    using ne(2) by (rule endswith_split_on [symmetric])
  finally have "endswith_char (CHR ''}'') t' = endswith_char (CHR ''}'') t" .
  with s have b: "brace_delimited t' = brace_delimited t"
    by (simp add: brace_delimited_def)
  have "(\<exists>q \<in> set ?qs. has_eq q) = (\<exists>p \<in> set ?ps. has_eq p)"
    using assms by (rule list_all2_ex_cong) (rule key_case_variant_has_eq)
  moreover have "CHR ''='' \<in> set t' \<longleftrightarrow> (\<exists>q \<in> set ?qs. has_eq q)"
    unfolding has_eq_def using ne(3) by (rule char_in_split_on)
  moreover have "CHR ''='' \<in> set t \<longleftrightarrow> (\<exists>p \<in> set ?ps. has_eq p)"
    unfolding has_eq_def using ne(3) by (rule char_in_split_on)
  ultimately have e: "CHR ''='' \<in> set t' \<longleftrightarrow> CHR ''='' \<in> set t"
    by simp
  have "CHR '','' \<in> set t' \<longleftrightarrow> length ?qs > 1" by (rule sep_in_iff)
  moreover have "CHR '','' \<in> set t \<longleftrightarrow> length ?ps > 1" by (rule sep_in_iff)
  ultimately have c: "CHR '','' \<in> set t' \<longleftrightarrow> CHR '','' \<in> set t"
    using list_all2_lengthD [OF assms] by simp
  show ?thesis by (simp add: classify_def b e c)
qed

lemma parse_key_value_format_variant:
  assumes "list_all2 key_case_variant (split_on (CHR '','') t) (split_on (CHR '','') t')"
  shows "parse_key_value_format py t' = parse_key_value_format py t"
  using foldl_kv_step_variant [OF assms, of py Map.empty]
  by (simp add: parse_key_value_format_def kv_loop_def)

lemma parse_sensor_data_classify:
  "parse_sensor_data py raw = parse_as (classify (strip raw)) py (strip raw)"
  by (simp add: parse_sensor_data_def classify_def brace_delimited_def Let_def)

lemma classify_Key_Value:
  "classify t = Key_Value \<longleftrightarrow> CHR ''='' \<in> set t \<and> \<not> brace_delimited t"
  by (simp add: classify_def)

lemma split_at_last:
  "\<exists>x \<in> set xs. P x \<Longrightarrow>
   \<exists>before after. xs = before @ last (filter P xs) # after \<and> (\<forall>q \<in> set after. \<not> P q)"
proof (induction xs rule: rev_induct)
  case Nil
  then show ?case by simp
next
  case (snoc x xs)
  show ?case
  proof (cases "P x")
    case True
    then have "xs @ [x] = xs @ last (filter P (xs @ [x])) # [] \<and> (\<forall>q \<in> set []. \<not> P q)"
      by simp
    then show ?thesis by blast
  next
    case False
    with snoc.prems have "\<exists>x \<in> set xs. P x" by auto
    from snoc.IH [OF this] obtain before after
      where "xs = before @ last (filter P xs) # after" "\<forall>q \<in> set after. \<not> P q" by blast
    with False have "xs @ [x] = before @ last (filter P (xs @ [x])) # (after @ [x]) \<and>
                     (\<forall>q \<in> set (after @ [x]). \<not> P q)"
      by simp
    then show ?thesis by blast
  qed
qed

lemma kv_loop_last_filter:
  assumes "filter (\<lambda>p. has_eq p \<and> column_of (key_of p) = Some c) pairs \<noteq> []"
  shows "kv_loop py pairs c =
           Some (stored_value py
                   (key_of (last (filter (\<lambda>p. has_eq p \<and> column_of (key_of p) = Some c) pairs)))
                   (value_of (last (filter (\<lambda>p. has_eq p \<and> column_of (key_of p) = Some c) pairs))))"
proof -
  let ?sel = "\<lambda>p. has_eq p \<and> column_of (key_of p) = Some c"
  let ?p = "last (filter ?sel pairs)"
  have pin: "?p \<in> set (filter ?sel pairs)" using assms by (rule last_in_set)
  have "\<exists>x \<in> set pairs. ?sel x" using assms by (simp add: filter_empty_conv)
  from split_at_last [of pairs ?sel, OF this]
  obtain before after where sp: "pairs = before @ ?p # after"
    and af: "\<forall>q \<in> set after. \<not> ?sel q"
    by blast
  show ?thesis
    using sp
  proof (rule kv_loop_last)
    show "has_eq ?p" using pin by simp
    show "column_of (key_of ?p) = Some c" using pin by simp
    show "\<forall>q \<in> set after. has_eq q \<longrightarrow> key_of q \<noteq> key_of ?p" using af pin by auto
  qed
qed

lemma kv_loop_source:
  assumes "kv_loop py pairs c \<noteq> None"
  shows "\<exists>p \<in> set pairs. has_eq p \<and> column_of (key_of p) = Some c \<and>
           kv_loop py pairs c = Some (stored_value py (key_of p) (value_of p))"
proof -
  let ?sel = "\<lambda>p. has_eq p \<and> column_of (key_of p) = Some c"
  from assms have "\<exists>p \<in> set pairs. ?sel p"
    unfolding kv_loop_def foldl_kv_step_dom by simp
  then have ne: "filter ?sel pairs \<noteq> []" by (simp add: filter_empty_conv)
  then have "last (filter ?sel pairs) \<in> set (filter ?sel pairs)" by (rule last_in_set)
  with kv_loop_last_filter [OF ne, of py] show ?thesis by auto
qed

lemma parse_key_value_format_reading:
  "parse_key_value_format py t = Some r \<Longrightarrow>
   r = (kv_loop py (split_on (CHR '','') t))(''transmitted'' \<mapsto> PyBool False)"
  by (simp add: parse_key_value_format_def Let_def split: if_splits)

lemma column_of_not_transmitted: "column_of k \<noteq> Some ''transmitted''"
  by (simp add: column_of_unfold)

text \<open>
  Claim C2, as the code has it.  For a trimmed line parsed as key=value (it contains \<^verbatim>\<open>=\<close>
  and is not brace-delimited) the parse succeeds exactly when a \<^verbatim>\<open>device_id\<close> pair was found
  and at least one pair with a recognized sensor key was found; it fails when either is
  missing.
\<close>

theorem key_value_succeeds_iff:
  assumes "CHR ''='' \<in> set (strip raw)" and "\<not> brace_delimited (strip raw)"
  shows "parse_sensor_data py raw \<noteq> None \<longleftrightarrow>
           (\<exists>p \<in> set (split_on (CHR '','') (strip raw)). has_eq p \<and> key_of p = ''device_id'') \<and>
           (\<exists>p \<in> set (split_on (CHR '','') (strip raw)). has_eq p \<and> key_of p \<in> set sensor_keys)"
proof -
  have "parse_sensor_data py raw = parse_key_value_format py (strip raw)"
    using assms by (auto simp: parse_sensor_data_def brace_delimited_def Let_def)
  then show ?thesis by (simp only: parse_key_value_format_Some)
qed

lemma strip_device_only: "strip ''device_id=T3'' = ''device_id=T3''"
  by (simp add: strip_def is_space_def)

lemma strip_sensor_only: "strip ''humidity=62.1'' = ''humidity=62.1''"
  by (simp add: strip_def is_space_def)

lemma strip_device_sensor:
  "strip ''device_id=T3,humidity=62.1'' = ''device_id=T3,humidity=62.1''"
  by (simp add: strip_def is_space_def)

theorem key_value_succeeds_iff_witness:
  "CHR ''='' \<in> set (strip ''device_id=T3,humidity=62.1'') \<and>
   \<not> brace_delimited (strip ''device_id=T3,humidity=62.1'') \<and>
   (\<exists>p \<in> set (split_on (CHR '','') (strip ''device_id=T3,humidity=62.1'')).
      has_eq p \<and> key_of p = ''device_id'') \<and>
   (\<exists>p \<in> set (split_on (CHR '','') (strip ''device_id=T3,humidity=62.1'')).
      has_eq p \<and> key_of p \<in> set sensor_keys) \<and>
   parse_sensor_data sample_python ''device_id=T3,humidity=62.1'' \<noteq> None"
proof -
  have h: "CHR ''='' \<in> set (strip ''device_id=T3,humidity=62.1'')"
    "\<not> brace_delimited (strip ''device_id=T3,humidity=62.1'')"
    by (simp_all add: strip_device_sensor brace_delimited_def startswith_char_def)
  have d: "\<exists>p \<in> set (split_on (CHR '','') (strip ''device_id=T3,humidity=62.1'')).
             has_eq p \<and> key_of p = ''device_id''"
    by (simp add: strip_device_sensor has_eq_def key_of_def str_defs)
  have s: "\<exists>p \<in> set (split_on (CHR '','') (strip ''device_id=T3,humidity=62.1'')).
             has_eq p \<and> key_of p \<in> set sensor_keys"
    by (simp add: strip_device_sensor has_eq_def key_of_def sensor_keys_def str_defs)
  from h d s key_value_succeeds_iff [OF h, of sample_python] show ?thesis by blast
qed

text \<open>
  Claim C2 as the specification words it does not hold: a line that supplies only a
  device, and a line that supplies only a sensor value, both fail to parse, although each
  has a recognized pair.
\<close>

theorem key_value_partial_line_counterexample:
  "(CHR ''='' \<in> set (strip ''device_id=T3'') \<and> \<not> brace_delimited (strip ''device_id=T3'') \<and>
    split_on (CHR '','') (strip ''device_id=T3'') = [''device_id=T3''] \<and>
    has_eq ''device_id=T3'' \<and> key_of ''device_id=T3'' = ''device_id'' \<and>
    parse_sensor_data sample_python ''device_id=T3'' = None) \<and>
   (CHR ''='' \<in> set (strip ''humidity=62.1'') \<and> \<not> brace_delimited (strip ''humidity=62.1'') \<and>
    split_on (CHR '','') (strip ''humidity=62.1'') = [''humidity=62.1''] \<and>
    has_eq ''humidity=62.1'' \<and> key_of ''humidity=62.1'' = ''humidity'' \<and>
    parse_sensor_data sample_python ''humidity=62.1'' = None)"
  by (simp add: strip_device_only strip_sensor_only brace_delimited_def has_eq_def key_of_def
        parse_sensor_data_def parse_key_value_format_def kv_loop_def kv_step_def
        sensor_columns_def safe_float_str_def sample_python_def sample_float_def str_defs Let_def)

text \<open>
  Claim C6.  For a key=value line the case of the letters of the keys does not matter: a
  line that differs from it only there is a key=value line too and gives the same result.
  The values are not touched: every value of the reading comes from the trimmed text after
  the \<^verbatim>\<open>=\<close> of one of the pairs, as it stands.
\<close>

theorem key_case_irrelevant:
  assumes "classify (strip raw) = Key_Value"
    and "list_all2 key_case_variant (split_on (CHR '','') (strip raw))
           (split_on (CHR '','') (strip raw'))"
  shows "classify (strip raw') = Key_Value \<and>
         parse_sensor_data py raw' = parse_sensor_data py raw \<and>
         (\<forall>r c. parse_sensor_data py raw = Some r \<and> r c \<noteq> None \<and> c \<noteq> ''transmitted'' \<longrightarrow>
            (\<exists>p \<in> set (split_on (CHR '','') (strip raw)). has_eq p \<and>
               column_of (key_of p) = Some c \<and>
               r c = Some (stored_value py (key_of p) (value_of p))))"
proof -
  have c': "classify (strip raw') = Key_Value"
    using key_case_variant_classify [OF assms(2)] assms(1) by simp
  have eq: "parse_sensor_data py raw' = parse_sensor_data py raw"
    using parse_key_value_format_variant [OF assms(2), of py] assms(1) c'
    by (simp add: parse_sensor_data_classify)
  have src: "\<exists>p \<in> set (split_on (CHR '','') (strip raw)). has_eq p \<and>
               column_of (key_of p) = Some c \<and>
               r c = Some (stored_value py (key_of p) (value_of p))"
    if "parse_sensor_data py raw = Some r" "r c \<noteq> None" "c \<noteq> ''transmitted''" for r c
  proof -
    from that(1) assms(1) have "parse_key_value_format py (strip raw) = Some r"
      by (simp add: parse_sensor_data_classify)
    then have r: "r = (kv_loop py (split_on (CHR '','') (strip raw)))(''transmitted'' \<mapsto> PyBool False)"
      by (rule parse_key_value_format_reading)
    with that(2,3) have "kv_loop py (split_on (CHR '','') (strip raw)) c \<noteq> None" by simp
    from kv_loop_source [OF this] r that(3) show ?thesis by simp
  qed
  from c' eq src show ?thesis by blast
qed

theorem key_case_irrelevant_witness:
  "classify (strip ''DEVICE_ID=AbC,Humidity=1'') = Key_Value \<and>
   list_all2 key_case_variant (split_on (CHR '','') (strip ''DEVICE_ID=AbC,Humidity=1''))
     (split_on (CHR '','') (strip ''device_id=AbC,humidity=1'')) \<and>
   parse_sensor_data sample_python ''device_id=AbC,humidity=1'' =
     parse_sensor_data sample_python ''DEVICE_ID=AbC,Humidity=1'' \<and>
   parse_sensor_data sample_python ''DEVICE_ID=AbC,Humidity=1'' =
     Some [''device_id'' \<mapsto> PyStr ''AbC'', ''humidity'' \<mapsto> PyFloat ''1'',
           ''transmitted'' \<mapsto> PyBool False]"
proof -
  have t: "strip ''DEVICE_ID=AbC,Humidity=1'' = ''DEVICE_ID=AbC,Humidity=1''"
    and t': "strip ''device_id=AbC,humidity=1'' = ''device_id=AbC,humidity=1''"
    by (simp_all add: strip_def is_space_def)
  have c: "classify (strip ''DEVICE_ID=AbC,Humidity=1'') = Key_Value"
    by (simp add: t classify_def brace_delimited_def startswith_char_def)
  have v: "list_all2 key_case_variant (split_on (CHR '','') (strip ''DEVICE_ID=AbC,Humidity=1''))
             (split_on (CHR '','') (strip ''device_id=AbC,humidity=1''))"
    by (simp add: t t' key_case_variant_def has_eq_def split_first_def lower_def lower_char_def)
  have r: "parse_sensor_data sample_python ''DEVICE_ID=AbC,Humidity=1'' =
     Some [''device_id'' \<mapsto> PyStr ''AbC'', ''humidity'' \<mapsto> PyFloat ''1'',
           ''transmitted'' \<mapsto> PyBool False]"
    by (simp add: parse_sensor_data_def t startswith_char_def parse_key_value_format_def
          kv_loop_def kv_step_def sensor_columns_def safe_float_str_def sample_python_def
          sample_float_def str_defs Let_def)
  from c v r key_case_irrelevant [OF c v, of sample_python] show ?thesis by simp
qed

text \<open>
  Claim C10.  In a key=value line that parses, a pair with a recognized key that no later
  pair repeats decides the column of that key: where a key occurs several times the last
  occurrence wins.  Segments without \<^verbatim>\<open>=\<close> play no part: the reading is what the pairs with
  \<^verbatim>\<open>=\<close> alone produce.
\<close>

theorem last_occurrence_wins:
  assumes "classify (strip raw) = Key_Value"
    and "parse_sensor_data py raw = Some r"
    and "split_on (CHR '','') (strip raw) = before @ p # after"
    and "has_eq p" and "column_of (key_of p) = Some c"
    and "\<forall>q \<in> set after. has_eq q \<longrightarrow> key_of q \<noteq> key_of p"
  shows "r c = Some (stored_value py (key_of p) (value_of p)) \<and>
         r = (kv_loop py (filter has_eq (split_on (CHR '','') (strip raw))))
               (''transmitted'' \<mapsto> PyBool False)"
proof -
  from assms(1,2) have "parse_key_value_format py (strip raw) = Some r"
    by (simp add: parse_sensor_data_classify)
  then have r: "r = (kv_loop py (split_on (CHR '','') (strip raw)))(''transmitted'' \<mapsto> PyBool False)"
    by (rule parse_key_value_format_reading)
  have "kv_loop py (split_on (CHR '','') (strip raw)) c =
          Some (stored_value py (key_of p) (value_of p))"
    using assms(3-6) by (rule kv_loop_last)
  moreover have "c \<noteq> ''transmitted''"
    using assms(5) column_of_not_transmitted by auto
  ultimately show ?thesis using r by (simp add: kv_loop_filter)
qed

theorem last_occurrence_wins_witness:
  "classify (strip ''device_id=A,humidity=1,junk,humidity=2,x=1'') = Key_Value \<and>
   parse_sensor_data sample_python ''device_id=A,humidity=1,junk,humidity=2,x=1'' =
     Some [''device_id'' \<mapsto> PyStr ''A'', ''humidity'' \<mapsto> PyFloat ''2'',
           ''transmitted'' \<mapsto> PyBool False] \<and>
   split_on (CHR '','') (strip ''device_id=A,humidity=1,junk,humidity=2,x=1'') =
     [''device_id=A'', ''humidity=1'', ''junk''] @ ''humidity=2'' # [''x=1''] \<and>
   has_eq ''humidity=2'' \<and> column_of (key_of ''humidity=2'') = Some ''humidity'' \<and>
   has_eq ''x=1'' \<and> key_of ''x=1'' \<noteq> key_of ''humidity=2'' \<and>
   [''device_id'' \<mapsto> PyStr ''A'', ''humidity'' \<mapsto> PyFloat ''2'',
    ''transmitted'' \<mapsto> PyBool False] ''humidity'' =
     Some (stored_value sample_python (key_of ''humidity=2'') (value_of ''humidity=2'')) \<and>
   \<not> has_eq ''junk''"
proof -
  have t: "strip ''device_id=A,humidity=1,junk,humidity=2,x=1'' =
             ''device_id=A,humidity=1,junk,humidity=2,x=1''"
    by (simp add: strip_def is_space_def)
  have c: "classify (strip ''device_id=A,humidity=1,junk,humidity=2,x=1'') = Key_Value"
    by (simp add: t classify_def brace_delimited_def startswith_char_def)
  have r: "parse_sensor_data sample_python ''device_id=A,humidity=1,junk,humidity=2,x=1'' =
     Some [''device_id'' \<mapsto> PyStr ''A'', ''humidity'' \<mapsto> PyFloat ''2'',
           ''transmitted'' \<mapsto> PyBool False]"
    by (simp add: parse_sensor_data_def t startswith_char_def parse_key_value_format_def
          kv_loop_def kv_step_def sensor_columns_def safe_float_str_def sample_python_def
          sample_float_def str_defs Let_def)
  have s: "split_on (CHR '','') (strip ''device_id=A,humidity=1,junk,humidity=2,x=1'') =
     [''device_id=A'', ''humidity=1'', ''junk''] @ ''humidity=2'' # [''x=1'']"
    by (simp add: t)
  have k: "key_of ''humidity=2'' = ''humidity''" "key_of ''x=1'' = ''x''"
    by (simp_all add: key_of_def str_defs)
  have h: "has_eq ''humidity=2''" "column_of (key_of ''humidity=2'') = Some ''humidity''"
    "\<forall>q \<in> set [''x=1'']. has_eq q \<longrightarrow> key_of q \<noteq> key_of ''humidity=2''"
    by (simp_all add: k has_eq_def column_of_unfold)
  have j: "\<not> has_eq ''junk''" by (simp add: has_eq_def)
  have x: "has_eq ''x=1''" "key_of ''x=1'' \<noteq> key_of ''humidity=2''"
    by (simp_all add: k has_eq_def)
  from c r s h(1,2) j x last_occurrence_wins [OF c r s h] show ?thesis by blast
qed

subsection \<open>What a reading carries\<close>

text \<open>
  Claim C1 as the specification words it does not hold for the structured-object format:
  the empty object decodes to a reading with the default device \<^verbatim>\<open>unknown\<close> and none of
  the seven sensor fields.
\<close>

theorem empty_object_counterexample:
  "parse_sensor_data sample_python ''{}'' =
     Some [''device_id'' \<mapsto> PyStr ''unknown'', ''ambient_temperature'' \<mapsto> PyNone,
           ''humidity'' \<mapsto> PyNone, ''soil_moisture'' \<mapsto> PyNone,
           ''soil_temperature'' \<mapsto> PyNone, ''wind_speed'' \<mapsto> PyNone,
           ''longitude'' \<mapsto> PyNone, ''latitude'' \<mapsto> PyNone,
           ''transmitted'' \<mapsto> PyBool False] \<and>
   \<not> list_ex (field_present
        [''device_id'' \<mapsto> PyStr ''unknown'', ''ambient_temperature'' \<mapsto> PyNone,
         ''humidity'' \<mapsto> PyNone, ''soil_moisture'' \<mapsto> PyNone,
         ''soil_temperature'' \<mapsto> PyNone, ''wind_speed'' \<mapsto> PyNone,
         ''longitude'' \<mapsto> PyNone, ''latitude'' \<mapsto> PyNone,
         ''transmitted'' \<mapsto> PyBool False]) sensor_columns"
  by (simp add: parse_sensor_data_def parse_json_format_def dict_get_def safe_float_def
        sample_python_def strip_def is_space_def startswith_char_def endswith_char_def
        field_present_def sensor_columns_def Let_def)

text \<open>
  Claim C1, as the code has it.  For a line that is not brace-delimited after trimming, a
  successful parse gives a reading with at least one of the seven sensor fields present,
  or with the device identifier that the line itself states: the value of its last
  \<^verbatim>\<open>device_id\<close> pair in the key=value format, the trimmed text of its first position in
  the delimited format.  The builtin \<^verbatim>\<open>float\<close> is taken to accept the decimal numbers
  that the generic format extracts from the line.
\<close>

theorem text_formats_reading_invariant:
  assumes "\<not> brace_delimited (strip raw)" and "parse_sensor_data py raw = Some r"
    and "list_all (\<lambda>n. float_str py n \<noteq> None) (findall (strip raw))"
  shows "list_ex (field_present r) sensor_columns \<or>
         (\<exists>d. supplied_device_id (strip raw) = Some d \<and> r ''device_id'' = Some (PyStr d))"
proof -
  let ?t = "strip raw"
  let ?ps = "split_on (CHR '','') ?t"
  consider (kv) "CHR ''='' \<in> set ?t" | (csv) "CHR ''='' \<notin> set ?t" "CHR '','' \<in> set ?t"
    | (gen) "CHR ''='' \<notin> set ?t" "CHR '','' \<notin> set ?t" by blast
  then show ?thesis
  proof cases
    case kv
    let ?dev = "\<lambda>p. has_eq p \<and> key_of p = ''device_id''"
    from kv assms(1,2) have p: "parse_key_value_format py ?t = Some r"
      by (simp add: parse_sensor_data_classify classify_def)
    then have r: "r = (kv_loop py ?ps)(''transmitted'' \<mapsto> PyBool False)"
      by (rule parse_key_value_format_reading)
    from p have "parse_key_value_format py ?t \<noteq> None" by simp
    then have "\<exists>p \<in> set ?ps. ?dev p" unfolding parse_key_value_format_Some by blast
    then have ne: "filter ?dev ?ps \<noteq> []" by (simp add: filter_empty_conv)
    have lk: "key_of (last (filter ?dev ?ps)) = ''device_id''"
      using last_in_set [OF ne] by simp
    have "kv_loop py ?ps ''device_id'' =
            Some (stored_value py (key_of (last (filter ?dev ?ps)))
                    (value_of (last (filter ?dev ?ps))))"
      using kv_loop_last_filter [of "''device_id''" ?ps py] ne by (simp add: column_of_device)
    then have "r ''device_id'' = Some (PyStr (value_of (last (filter ?dev ?ps))))"
      using r lk by (simp add: stored_value_def)
    moreover have "supplied_device_id ?t = Some (value_of (last (filter ?dev ?ps)))"
      using kv ne by (simp add: supplied_device_id_def split: list.splits)
    ultimately show ?thesis by blast
  next
    case csv
    from csv assms(1,2) have p: "parse_csv_format py ?t = Some r"
      by (simp add: parse_sensor_data_classify classify_def)
    then have "r ''device_id'' = Some (PyStr (strip (?ps ! 0)))"
      by (auto simp: parse_csv_format_def Let_def split: if_splits)
    moreover have "?ps ! 0 = hd ?ps"
      using split_on_nonempty [of "CHR '',''" ?t] by (simp add: hd_conv_nth)
    moreover have "supplied_device_id ?t = Some (strip (hd ?ps))"
      using csv by (simp add: supplied_device_id_def)
    ultimately show ?thesis by simp
  next
    case gen
    from gen assms(1,2) have p: "parse_generic_format py ?t = Some r"
      by (simp add: parse_sensor_data_classify classify_def)
    then have len: "length (findall ?t) \<ge> 4"
      and a: "r ''ambient_temperature'' = Some (safe_float_str py (findall ?t ! 0))"
      by (auto simp: parse_generic_format_def Let_def split: if_splits)
    from len have "0 < length (findall ?t)" by (cases "findall ?t") simp_all
    then have "findall ?t ! 0 \<in> set (findall ?t)" by (rule nth_mem)
    with assms(3) have "float_str py (findall ?t ! 0) \<noteq> None"
      by (simp add: list_all_iff)
    with a have "field_present r ''ambient_temperature''"
      by (auto simp: field_present_def safe_float_str_def)
    then show ?thesis by (simp add: sensor_columns_def)
  qed
qed

theorem text_formats_reading_invariant_witness:
  "(\<not> brace_delimited (strip ''27.3 55.6 39.7 24.2'') \<and>
    parse_sensor_data sample_python ''27.3 55.6 39.7 24.2'' =
      Some [''device_id'' \<mapsto> PyStr ''unknown'',
            ''ambient_temperature'' \<mapsto> PyFloat ''27.3'',
            ''humidity'' \<mapsto> PyFloat ''55.6'',
            ''soil_moisture'' \<mapsto> PyFloat ''39.7'',
            ''soil_temperature'' \<mapsto> PyFloat ''24.2'',
            ''wind_speed'' \<mapsto> PyNone, ''longitude'' \<mapsto> PyNone, ''latitude'' \<mapsto> PyNone,
            ''transmitted'' \<mapsto> PyBool False] \<and>
    list_all (\<lambda>n. float_str sample_python n \<noteq> None) (findall (strip ''27.3 55.6 39.7 24.2'')) \<and>
    supplied_device_id (strip ''27.3 55.6 39.7 24.2'') = None \<and>
    list_ex (field_present
        [''device_id'' \<mapsto> PyStr ''unknown'',
         ''ambient_temperature'' \<mapsto> PyFloat ''27.3'',
         ''humidity'' \<mapsto> PyFloat ''55.6'',
         ''soil_moisture'' \<mapsto> PyFloat ''39.7'',
         ''soil_temperature'' \<mapsto> PyFloat ''24.2'',
         ''wind_speed'' \<mapsto> PyNone, ''longitude'' \<mapsto> PyNone, ''latitude'' \<mapsto> PyNone,
         ''transmitted'' \<mapsto> PyBool False]) sensor_columns)"
proof -
  let ?r = "[''device_id'' \<mapsto> PyStr ''unknown'',
             ''ambient_temperature'' \<mapsto> PyFloat ''27.3'',
             ''humidity'' \<mapsto> PyFloat ''55.6'',
             ''soil_moisture'' \<mapsto> PyFloat ''39.7'',
             ''soil_temperature'' \<mapsto> PyFloat ''24.2'',
             ''wind_speed'' \<mapsto> PyNone, ''longitude'' \<mapsto> PyNone, ''latitude'' \<mapsto> PyNone,
             ''transmitted'' \<mapsto> PyBool False]"
  have t: "strip ''27.3 55.6 39.7 24.2'' = ''27.3 55.6 39.7 24.2''"
    by (simp add: strip_def is_space_def)
  have b: "\<not> brace_delimited (strip ''27.3 55.6 39.7 24.2'')"
    by (simp add: t brace_delimited_def startswith_char_def)
  have p: "parse_sensor_data sample_python ''27.3 55.6 39.7 24.2'' = Some ?r"
    by (simp add: parse_sensor_data_def t parse_generic_format_def findall_ex
          safe_float_str_def sample_python_def sample_float_def str_defs)
  have f: "list_all (\<lambda>n. float_str sample_python n \<noteq> None)
             (findall (strip ''27.3 55.6 39.7 24.2''))"
    by (simp add: t findall_ex sample_python_def sample_float_def str_defs)
  have n: "supplied_device_id (strip ''27.3 55.6 39.7 24.2'') = None"
    by (simp add: t supplied_device_id_def)
  from text_formats_reading_invariant [OF b p f] n
  have "list_ex (field_present ?r) sensor_columns" by simp
  with b p f n show ?thesis by blast
qed

section \<open>Properties of the serial session\<close>

lemma probe_loop_ok:
  "probe_ok drv p \<Longrightarrow> probe_loop drv acc (p # ps) = probe_loop drv (acc @ [p]) ps"
  by (simp add: probe_ok_def split: sum.splits)

lemma probe_loop_io_error:
  "probe_io_error drv p \<Longrightarrow> probe_loop drv acc (p # ps) = probe_loop drv acc ps"
  by (simp add: probe_io_error_def split: sum.splits option.splits)

lemma probe_io_error_not_ok: "probe_io_error drv p \<Longrightarrow> \<not> probe_ok drv p"
  by (simp add: probe_io_error_def probe_ok_def split: sum.splits option.splits)

lemma probe_loop_raises:
  "\<not> probe_ok drv p \<Longrightarrow> \<not> probe_io_error drv p \<Longrightarrow> \<exists>e. probe_loop drv acc (p # ps) = Inl e"
  by (simp add: probe_io_error_def probe_ok_def split: sum.splits option.splits)

lemma probe_loop_result:
  "probe_loop drv acc ports = Inr out \<Longrightarrow> out = acc @ filter (probe_ok drv) ports"
proof (induction ports arbitrary: acc)
  case Nil
  then show ?case by simp
next
  case (Cons p ps)
  consider (ok) "probe_ok drv p" | (io) "probe_io_error drv p"
    | (other) "\<not> probe_ok drv p" "\<not> probe_io_error drv p" by blast
  then show ?case
  proof cases
    case ok
    with Cons.prems have "probe_loop drv (acc @ [p]) ps = Inr out" by (simp add: probe_loop_ok del: probe_loop.simps)
    from Cons.IH [OF this] ok show ?thesis by simp
  next
    case io
    with Cons.prems have "probe_loop drv acc ps = Inr out" by (simp add: probe_loop_io_error del: probe_loop.simps)
    from Cons.IH [OF this] io show ?thesis by (simp add: probe_io_error_not_ok)
  next
    case other
    with probe_loop_raises [of drv p acc ps] Cons.prems show ?thesis
      by (auto simp del: probe_loop.simps)
  qed
qed

lemma probe_loop_returns:
  "\<forall>p \<in> set ports. probe_ok drv p \<or> probe_io_error drv p \<Longrightarrow>
   probe_loop drv acc ports = Inr (acc @ filter (probe_ok drv) ports)"
proof (induction ports arbitrary: acc)
  case Nil
  show ?case by simp
next
  case (Cons p ps)
  then have ih: "\<And>acc. probe_loop drv acc ps = Inr (acc @ filter (probe_ok drv) ps)" by simp
  from Cons.prems have "probe_ok drv p \<or> probe_io_error drv p" by simp
  then show ?case
  proof
    assume "probe_ok drv p"
    then show ?thesis by (simp add: probe_loop_ok ih del: probe_loop.simps)
  next
    assume "probe_io_error drv p"
    then show ?thesis
      by (simp add: probe_loop_io_error probe_io_error_not_ok ih del: probe_loop.simps)
  qed
qed

lemma probe_ok_opens: "probe_ok drv p \<Longrightarrow> probe_opens drv p"
  by (simp add: probe_ok_def probe_opens_def split: sum.splits)

text \<open>
  Claim C7.  On a supported platform the scan returns, in order, exactly the candidates
  whose probe succeeded, so every port it returns is a candidate that opened.  A probe
  that fails with an I/O error only drops its candidate: when every failing probe fails
  so, the scan returns and does not raise.
\<close>

theorem scan_only_openable_ports:
  assumes "port_list drv = Inr candidates"
  shows "(scan_available_ports drv = Inr ports \<longrightarrow>
            ports = filter (probe_ok drv) candidates \<and>
            (\<forall>p \<in> set ports. p \<in> set candidates \<and> probe_opens drv p)) \<and>
         ((\<forall>p \<in> set candidates. probe_ok drv p \<or> probe_io_error drv p) \<longrightarrow>
            scan_available_ports drv = Inr (filter (probe_ok drv) candidates))"
proof -
  have s: "scan_available_ports drv = probe_loop drv [] candidates"
    using assms by (simp add: scan_available_ports_def)
  have "ports = filter (probe_ok drv) candidates \<and>
        (\<forall>p \<in> set ports. p \<in> set candidates \<and> probe_opens drv p)"
    if "scan_available_ports drv = Inr ports"
    using probe_loop_result [of drv "[]" candidates ports] that s
    by (auto simp: probe_ok_opens)
  moreover have "scan_available_ports drv = Inr (filter (probe_ok drv) candidates)"
    if "\<forall>p \<in> set candidates. probe_ok drv p \<or> probe_io_error drv p"
    using probe_loop_returns [OF that, of "[]"] s by simp
  ultimately show ?thesis by blast
qed

lemma sample_port_list:
  "port_list sample_driver = Inr [''/dev/ttyS0'', ''/dev/ttyUSB0'', ''/dev/ttyS1'']"
  by (simp add: port_list_def sample_driver_def startswith_def)

theorem scan_only_openable_ports_witness:
  "port_list sample_driver = Inr [''/dev/ttyS0'', ''/dev/ttyUSB0'', ''/dev/ttyS1''] \<and>
   list_all (\<lambda>p. probe_ok sample_driver p \<or> probe_io_error sample_driver p)
     [''/dev/ttyS0'', ''/dev/ttyUSB0'', ''/dev/ttyS1''] \<and>
   \<not> probe_opens sample_driver ''/dev/ttyS0'' \<and> \<not> probe_opens sample_driver ''/dev/ttyS1'' \<and>
   scan_available_ports sample_driver = Inr [''/dev/ttyUSB0'']"
proof -
  have h: "\<forall>p \<in> set [''/dev/ttyS0'', ''/dev/ttyUSB0'', ''/dev/ttyS1''].
             probe_ok sample_driver p \<or> probe_io_error sample_driver p"
    by (simp add: probe_ok_def probe_io_error_def is_os_error_def sample_driver_def
          DEFAULT_BAUD_def)
  have n: "\<not> probe_opens sample_driver ''/dev/ttyS0''" "\<not> probe_opens sample_driver ''/dev/ttyS1''"
    by (simp_all add: probe_opens_def sample_driver_def DEFAULT_BAUD_def)
  have f: "filter (probe_ok sample_driver) [''/dev/ttyS0'', ''/dev/ttyUSB0'', ''/dev/ttyS1''] =
             [''/dev/ttyUSB0'']"
    by (simp add: probe_ok_def sample_driver_def DEFAULT_BAUD_def)
  from scan_only_openable_ports [OF sample_port_list, of "[''/dev/ttyUSB0'']"] h f
  have "scan_available_ports sample_driver = Inr [''/dev/ttyUSB0'']" by simp
  with sample_port_list h n show ?thesis by (simp add: list_all_iff)
qed

text \<open>
  What \<^verbatim>\<open>connect\<close> does when the library reports the failure as a \<^verbatim>\<open>SerialException\<close>: on an
  idle session it returns \<^verbatim>\<open>False\<close>, raises nothing, and leaves the session as it was.
\<close>

lemma connect_open_failure:
  assumes "idle s" and "os_type = OS_LINUX \<or> os_type = OS_WINDOWS"
    and "serial_Serial drv (if os_type = OS_LINUX then ''/dev/tty'' @ port else port) baud_rate =
           Inl SerialException"
  shows "connect drv s port baud_rate os_type = (Inr False, s) \<and>
         idle (snd (connect drv s port baud_rate os_type))"
proof -
  from assms(1) have e: "s\<lparr>is_connected := False\<rparr> = s" by (simp add: idle_def)
  have o: "open_connection drv s path baud_rate = (Inr False, s)"
    if "serial_Serial drv path baud_rate = Inl SerialException" for path
    using that by (simp add: open_connection_def e)
  have "connect drv s port baud_rate os_type = (Inr False, s)"
  proof (cases "os_type = OS_LINUX")
    case True
    with assms(3) show ?thesis by (simp add: connect_def o)
  next
    case False
    with assms(2,3) show ?thesis by (simp add: connect_def o)
  qed
  with assms(1) show ?thesis by simp
qed

lemma connect_open_failure_example:
  "idle init_session \<and> (OS_LINUX = OS_LINUX \<or> OS_LINUX = OS_WINDOWS) \<and>
   serial_Serial sample_driver (if OS_LINUX = OS_LINUX then ''/dev/tty'' @ ''S1'' else ''S1'') 9600 =
     Inl SerialException \<and>
   connect sample_driver init_session ''S1'' 9600 OS_LINUX = (Inr False, init_session)"
proof -
  have i: "idle init_session" by (simp add: idle_def init_session_def)
  have o: "OS_LINUX = OS_LINUX \<or> OS_LINUX = OS_WINDOWS" by simp
  have f: "serial_Serial sample_driver
             (if OS_LINUX = OS_LINUX then ''/dev/tty'' @ ''S1'' else ''S1'') 9600 =
           Inl SerialException"
    by (simp add: sample_driver_def)
  from i o f connect_open_failure [OF i o f] show ?thesis by blast
qed

text \<open>
  Any other exception of the constructor is not caught: it reaches the caller, and the
  session is left as it was.
\<close>

lemma connect_other_exception:
  assumes "os_type = OS_LINUX \<or> os_type = OS_WINDOWS"
    and "serial_Serial drv (if os_type = OS_LINUX then ''/dev/tty'' @ port else port) baud_rate =
           Inl e"
    and "e \<noteq> SerialException"
  shows "connect drv s port baud_rate os_type = (Inl e, s)"
proof (cases "os_type = OS_LINUX")
  case True
  with assms(2,3) show ?thesis by (simp add: connect_def open_connection_def)
next
  case False
  with assms show ?thesis by (simp add: connect_def open_connection_def)
qed

text \<open>
  Claim C8 says that \<^verbatim>\<open>connect\<close> on an idle session returns \<^verbatim>\<open>False\<close> and raises nothing
  whenever opening the handle fails, and the docstring of \<^verbatim>\<open>connect\<close> promises \<^verbatim>\<open>False\<close> for
  every unsuccessful connection.  The code does not keep this: on the sample machine, a
  call on the idle initial session with a baud rate too large for the port configuration
  makes the constructor raise \<^verbatim>\<open>OverflowError\<close>, and \<^verbatim>\<open>connect\<close> lets it through to the
  caller.
\<close>

theorem connect_exception_propagates:
  "idle init_session \<and>
   serial_Serial sample_driver (''/dev/tty'' @ ''USB0'') 1000000000000000000000000000000 =
     Inl OverflowError \<and>
   connect sample_driver init_session ''USB0'' 1000000000000000000000000000000 OS_LINUX =
     (Inl OverflowError, init_session)"
  by (simp add: idle_def init_session_def connect_def open_connection_def sample_driver_def)

text \<open>
  Claim C9.  On an idle session \<^verbatim>\<open>disconnect\<close> raises nothing and changes nothing.  A second
  \<^verbatim>\<open>disconnect\<close> right after a first one never raises and leaves the session idle (no
  handle, not connected, monitoring off); after a first one that returned, it changes
  nothing.
\<close>

theorem disconnect_idempotent:
  "(idle s \<longrightarrow> disconnect drv s = (None, s)) \<and>
   fst (disconnect drv (snd (disconnect drv s))) = None \<and>
   idle (snd (disconnect drv (snd (disconnect drv s)))) \<and>
   (fst (disconnect drv s) = None \<longrightarrow>
      idle (snd (disconnect drv s)) \<and>
      disconnect drv (snd (disconnect drv s)) = (None, snd (disconnect drv s)))"
  by (auto simp: disconnect_def idle_def Let_def split: option.splits)

theorem disconnect_idempotent_witness:
  "connect sample_driver init_session ''USB0'' 9600 OS_LINUX =
     (Inr True, \<lparr>serial_connection = Some 3, is_connected = True,
                 should_monitor_data = True, data_monitoring_thread = Some Monitor_Thread\<rparr>) \<and>
   disconnect sample_driver
     \<lparr>serial_connection = Some 3, is_connected = True,
      should_monitor_data = True, data_monitoring_thread = Some Monitor_Thread\<rparr> =
     (None, \<lparr>serial_connection = None, is_connected = False,
             should_monitor_data = False, data_monitoring_thread = Some Monitor_Thread\<rparr>) \<and>
   idle \<lparr>serial_connection = None, is_connected = False,
         should_monitor_data = False, data_monitoring_thread = Some Monitor_Thread\<rparr> \<and>
   disconnect sample_driver
     \<lparr>serial_connection = None, is_connected = False,
      should_monitor_data = False, data_monitoring_thread = Some Monitor_Thread\<rparr> =
     (None, \<lparr>serial_connection = None, is_connected = False,
             should_monitor_data = False, data_monitoring_thread = Some Monitor_Thread\<rparr>)"
proof -
  let ?c = "\<lparr>serial_connection = Some 3, is_connected = True,
             should_monitor_data = True, data_monitoring_thread = Some Monitor_Thread\<rparr>"
  let ?i = "\<lparr>serial_connection = None, is_connected = False,
             should_monitor_data = False, data_monitoring_thread = Some Monitor_Thread\<rparr>"
  have c: "connect sample_driver init_session ''USB0'' 9600 OS_LINUX = (Inr True, ?c)"
    by (simp add: connect_def open_connection_def sample_driver_def init_session_def
          start_data_monitoring_def)
  have d: "disconnect sample_driver ?c = (None, ?i)"
    by (simp add: disconnect_def sample_driver_def)
  have i: "idle ?i" by (simp add: idle_def)
  from disconnect_idempotent [of ?i sample_driver] i
  have "disconnect sample_driver ?i = (None, ?i)" by blast
  with c d i show ?thesis by blast
qed

end
